theory Spec2Isabelle
  imports Main "HOL-Library.Word" "HOL-Library.Multiset" "HOL-Library.Sublist"
    "HOL-Library.List_Lexorder"
begin

unbundle bit_operations_syntax

section \<open>The operating system and the process state\<close>

text \<open>
  The fields of \<^verbatim>\<open>struct stat\<close> that \<^verbatim>\<open>ls.c\<close> reads, with the widths they have on 64-bit
  Linux: \<^verbatim>\<open>ino_t\<close>, \<^verbatim>\<open>nlink_t\<close> unsigned 64-bit, \<^verbatim>\<open>mode_t\<close>, \<^verbatim>\<open>uid_t\<close>, \<^verbatim>\<open>gid_t\<close> unsigned
  32-bit, \<^verbatim>\<open>off_t\<close>, \<^verbatim>\<open>time_t\<close> signed 64-bit.
\<close>

record stat_t =
  st_ino :: "64 word"
  st_nlink :: "64 word"
  st_mode :: "32 word"
  st_uid :: "32 word"
  st_gid :: "32 word"
  st_size :: "64 word"
  st_mtime :: "64 word"

text \<open>
  What the program asks of its environment. A call that can fail answers \<^verbatim>\<open>Inl errno\<close> or
  \<^verbatim>\<open>Inr result\<close>. Paths are resolved against the current working directory, the first
  argument of the file-system calls.
  \<^item> \<^verbatim>\<open>os_stat\<close>, \<^verbatim>\<open>os_lstat\<close>: \<^verbatim>\<open>stat(2)\<close> (follows symbolic links) and \<^verbatim>\<open>lstat(2)\<close> (does not);
  \<^item> \<^verbatim>\<open>os_readlink\<close>: the target stored in a symbolic link;
  \<^item> \<^verbatim>\<open>os_readdir\<close>: \<^verbatim>\<open>opendir\<close> and the names that the successive \<^verbatim>\<open>readdir\<close> calls give;
  \<^item> \<^verbatim>\<open>os_chdir\<close>: the new working directory;
  \<^item> \<^verbatim>\<open>os_getcwd\<close>: \<^verbatim>\<open>getcwd(buf, 4096)\<close>, told whether \<^verbatim>\<open>buf\<close> is \<^verbatim>\<open>NULL\<close>;
  \<^item> \<^verbatim>\<open>os_alloc n\<close>: whether the \<^verbatim>\<open>n\<close>-th \<^verbatim>\<open>malloc\<close> or \<^verbatim>\<open>realloc\<close> of the run succeeds;
  \<^item> \<^verbatim>\<open>os_getpwuid\<close>, \<^verbatim>\<open>os_getgrgid\<close>: \<^verbatim>\<open>getpwuid\<close> and \<^verbatim>\<open>getgrgid\<close>, given the id and the value
    of \<^verbatim>\<open>errno\<close> before the call: the name found (\<^verbatim>\<open>None\<close> for a \<^verbatim>\<open>NULL\<close> result) and the value
    of \<^verbatim>\<open>errno\<close> after the call, which these functions may change even when they succeed;
  \<^item> \<^verbatim>\<open>os_strftime\<close>: \<^verbatim>\<open>localtime\<close> followed by \<^verbatim>\<open>strftime\<close> with \<^verbatim>\<open>"%F %H:%M"\<close>; \<^verbatim>\<open>None\<close> when
    \<^verbatim>\<open>localtime\<close> returns \<^verbatim>\<open>NULL\<close> (a time whose year does not fit in an \<^verbatim>\<open>int\<close>);
  \<^item> \<^verbatim>\<open>os_strerror\<close>: \<^verbatim>\<open>strerror\<close>.
  \<^verbatim>\<open>strdup\<close>, whose result the source never checks, is taken to succeed.
\<close>

record os =
  os_stat :: "string \<Rightarrow> string \<Rightarrow> int + stat_t"
  os_lstat :: "string \<Rightarrow> string \<Rightarrow> int + stat_t"
  os_readlink :: "string \<Rightarrow> string \<Rightarrow> int + string"
  os_readdir :: "string \<Rightarrow> string \<Rightarrow> int + string list"
  os_chdir :: "string \<Rightarrow> string \<Rightarrow> int + string"
  os_getcwd :: "string \<Rightarrow> bool \<Rightarrow> int + string"
  os_alloc :: "nat \<Rightarrow> bool"
  os_getpwuid :: "32 word \<Rightarrow> int \<Rightarrow> string option \<times> int"
  os_getgrgid :: "32 word \<Rightarrow> int \<Rightarrow> string option \<times> int"
  os_strftime :: "64 word \<Rightarrow> string option"
  os_strerror :: "int \<Rightarrow> string"

text \<open>The system calls on the file system that a run makes, in order.\<close>

datatype syscall =
  Stat string | Lstat string | Readlink string | Opendir string | Chdir "string option" | Getcwd

text \<open>
  The state of the process: working directory, \<^verbatim>\<open>errno\<close>, what has been written to the two
  streams, the number of allocation requests made, and the trace of system calls.
\<close>

record world =
  w_cwd :: string
  w_errno :: int
  w_stdout :: string
  w_stderr :: string
  w_allocs :: nat
  w_trace :: "syscall list"

text \<open>
  How a run ends before its function returns: \<^verbatim>\<open>exit(code)\<close>, or a write through a null
  pointer (\<^verbatim>\<open>Fault\<close>), which ends the process by a signal and not by an exit status.
  \<^verbatim>\<open>main\<close> returning \<^verbatim>\<open>v\<close> is \<^verbatim>\<open>Exit v\<close>.
\<close>

datatype halt = Exit int | Fault

definition ENOMEM :: int where "ENOMEM = 12"
definition EFAULT :: int where "EFAULT = 14"

definition emit :: "string \<Rightarrow> world \<Rightarrow> world" where
  "emit s w = w\<lparr>w_stdout := w_stdout w @ s\<rparr>"

definition emit_err :: "string \<Rightarrow> world \<Rightarrow> world" where
  "emit_err s w = w\<lparr>w_stderr := w_stderr w @ s\<rparr>"

definition log_call :: "syscall \<Rightarrow> world \<Rightarrow> world" where
  "log_call c w = w\<lparr>w_trace := w_trace w @ [c]\<rparr>"

definition answer :: "int + 'a \<Rightarrow> world \<Rightarrow> (int + 'a) \<times> world" where
  "answer r w = (case r of Inl e \<Rightarrow> (Inl e, w\<lparr>w_errno := e\<rparr>) | Inr v \<Rightarrow> (Inr v, w))"

definition sys_stat :: "os \<Rightarrow> string \<Rightarrow> world \<Rightarrow> (int + stat_t) \<times> world" where
  "sys_stat sys path w = answer (os_stat sys (w_cwd w) path) (log_call (Stat path) w)"

definition sys_lstat :: "os \<Rightarrow> string \<Rightarrow> world \<Rightarrow> (int + stat_t) \<times> world" where
  "sys_lstat sys path w = answer (os_lstat sys (w_cwd w) path) (log_call (Lstat path) w)"

definition sys_readlink :: "os \<Rightarrow> string \<Rightarrow> world \<Rightarrow> (int + string) \<times> world" where
  "sys_readlink sys path w = answer (os_readlink sys (w_cwd w) path) (log_call (Readlink path) w)"

definition sys_opendir :: "os \<Rightarrow> string \<Rightarrow> world \<Rightarrow> (int + string list) \<times> world" where
  "sys_opendir sys path w = answer (os_readdir sys (w_cwd w) path) (log_call (Opendir path) w)"

text \<open>\<^verbatim>\<open>chdir(NULL)\<close> fails with \<^verbatim>\<open>EFAULT\<close>.\<close>

definition sys_chdir :: "os \<Rightarrow> string option \<Rightarrow> world \<Rightarrow> (int + unit) \<times> world" where
  "sys_chdir sys path w =
     (let w1 = log_call (Chdir path) w
      in case path of
           None \<Rightarrow> (Inl EFAULT, w1\<lparr>w_errno := EFAULT\<rparr>)
         | Some p \<Rightarrow>
             (case os_chdir sys (w_cwd w) p of
                Inl e \<Rightarrow> (Inl e, w1\<lparr>w_errno := e\<rparr>)
              | Inr d \<Rightarrow> (Inr (), w1\<lparr>w_cwd := d\<rparr>)))"

definition sys_getcwd :: "os \<Rightarrow> bool \<Rightarrow> world \<Rightarrow> (int + string) \<times> world" where
  "sys_getcwd sys buf_null w = answer (os_getcwd sys (w_cwd w) buf_null) (log_call Getcwd w)"

text \<open>\<^verbatim>\<open>malloc\<close> and \<^verbatim>\<open>realloc\<close>: \<^verbatim>\<open>True\<close> for a non-null result.\<close>

definition alloc :: "os \<Rightarrow> world \<Rightarrow> bool \<times> world" where
  "alloc sys w =
     (let ok = os_alloc sys (w_allocs w)
      in (ok, w\<lparr>w_allocs := Suc (w_allocs w), w_errno := (if ok then w_errno w else ENOMEM)\<rparr>))"

section \<open>Options (struct arg\_t and parse\_args)\<close>

text \<open>
  \<^verbatim>\<open>struct arg_t\<close> of \<^verbatim>\<open>ls.c\<close>. The four flags are C ints used as booleans, \<^verbatim>\<open>files\<close>
  is the operand vector and \<^verbatim>\<open>fc\<close> its length.
\<close>

record arg_t =
  all :: int
  almost :: int
  human :: int
  follow :: int
  files :: "string list"
  fc :: int

text \<open>\<^verbatim>\<open>static struct arg_t g_args; /* defaults to 0s */\<close>\<close>

definition g_args :: arg_t where
  "g_args = \<lparr>all = 0, almost = 0, human = 0, follow = 0, files = [], fc = 0\<rparr>"

definition DEFAULT_FILES :: "string list" where
  "DEFAULT_FILES = [''.'']"

text \<open>
  The \<^verbatim>\<open>for (;;)\<close> loop of \<^verbatim>\<open>parse_args\<close>. \<^verbatim>\<open>getopt_long\<close> is the C library's; the
  model receives, for its successive calls, the value it returns and what it writes to
  standard error during the call, the end of the list standing for the final \<^verbatim>\<open>-1\<close>. With
  the table \<^verbatim>\<open>options[]\<close> of the source it returns \<^verbatim>\<open>'a'\<close>, \<^verbatim>\<open>'A'\<close>, \<^verbatim>\<open>'h'\<close>, \<^verbatim>\<open>'L'\<close> for the four
  flags (short or long), and \<^verbatim>\<open>'?'\<close> both for \<^verbatim>\<open>--help\<close> and for any flag it does not
  recognise. The program leaves \<^verbatim>\<open>opterr\<close> at its default, so for a flag it does not
  recognise \<^verbatim>\<open>getopt_long\<close> itself prints a diagnostic line (such as
  \<^verbatim>\<open>ls: invalid option -- 'z'\<close>) before it returns \<^verbatim>\<open>'?'\<close>; it prints nothing for \<^verbatim>\<open>--help\<close>.
  The first component of the result is 0 when the loop is left by \<^verbatim>\<open>break\<close> and \<^verbatim>\<open>-1\<close> when
  \<^verbatim>\<open>parse_args\<close> returns \<^verbatim>\<open>-1\<close> from the switch.
\<close>

fun getopt_loop :: "(int \<times> string) list \<Rightarrow> arg_t \<Rightarrow> world \<Rightarrow> (int \<times> arg_t) \<times> world" where
  "getopt_loop [] g w = ((0, g), w)"
| "getopt_loop ((opt, diag) # rest) g w =
     (let w1 = emit_err diag w
      in if opt = - 1 then ((0, g), w1)
         else if opt = of_char CHR ''a'' then getopt_loop rest (g\<lparr>all := 1\<rparr>) w1
         else if opt = of_char CHR ''A'' then getopt_loop rest (g\<lparr>almost := 1\<rparr>) w1
         else if opt = of_char CHR ''h'' then getopt_loop rest (g\<lparr>human := 1\<rparr>) w1
         else if opt = of_char CHR ''L'' then getopt_loop rest (g\<lparr>follow := 1\<rparr>) w1
         else ((- 1, g), w1))"

text \<open>
  \<^verbatim>\<open>parse_args\<close>: \<^verbatim>\<open>rs\<close> are the results of the calls of \<^verbatim>\<open>getopt_long\<close>, \<^verbatim>\<open>operands\<close> is
  \<^verbatim>\<open>argv + optind\<close> (of length \<^verbatim>\<open>argc - optind\<close>), \<^verbatim>\<open>g\<close> the global before the call. The
  result is the value returned, the global after the call and the process state.
\<close>

definition parse_args ::
  "(int \<times> string) list \<Rightarrow> string list \<Rightarrow> arg_t \<Rightarrow> world \<Rightarrow> (int \<times> arg_t) \<times> world" where
  "parse_args rs operands g w =
     (case getopt_loop rs g w of
        ((r, g1), w1) \<Rightarrow>
          if r \<noteq> 0 then ((- 1, g1), w1)
          else
            let g2 = (if almost g1 \<noteq> 0 \<and> all g1 \<noteq> 0 then g1\<lparr>almost := 0\<rparr> else g1);
                g3 = g2\<lparr>files := operands, fc := int (length operands)\<rparr>;
                g4 = (if fc g3 = 0 then g3\<lparr>files := DEFAULT_FILES, fc := 1\<rparr> else g3)
            in ((0, g4), w1))"

section \<open>The filter (skip)\<close>

text \<open>\<^verbatim>\<open>file[i]\<close> of a C string: the terminating NUL is read at index \<^verbatim>\<open>strlen(file)\<close>.\<close>

definition char_at :: "string \<Rightarrow> nat \<Rightarrow> char" where
  "char_at s i = (if i < length s then s ! i else CHR 0x00)"

definition skip :: "arg_t \<Rightarrow> string \<Rightarrow> int" where
  "skip g file =
     (if all g \<noteq> 0 then 0
      else if almost g \<noteq> 0 \<and> (file \<noteq> ''.'' \<and> file \<noteq> ''..'') then 0
      else if char_at file 0 = CHR ''.'' then 1
      else 0)"

section \<open>Formatting numbers: the printf conversions used by ls.c\<close>

text \<open>
  \<^verbatim>\<open>%ld\<close> and \<^verbatim>\<open>%d\<close> print the decimal digits of a signed value, most significant first,
  with a leading minus sign for a negative one; \<^verbatim>\<open>%7ld\<close> pads with spaces on the left to
  at least 7 characters, \<^verbatim>\<open>%-6ld\<close> on the right to at least 6.
\<close>

definition digit_char :: "nat \<Rightarrow> char" where
  "digit_char d = ''0123456789'' ! d"

fun dec :: "nat \<Rightarrow> string" where
  "dec n = (if n < 10 then [digit_char n] else dec (n div 10) @ [digit_char (n mod 10)])"

declare dec.simps [simp del]

definition printf_d :: "int \<Rightarrow> string" where
  "printf_d v = (if v < 0 then CHR ''-'' # dec (nat (- v)) else dec (nat v))"

definition rjust :: "nat \<Rightarrow> string \<Rightarrow> string" where
  "rjust w s = replicate (w - length s) CHR '' '' @ s"

definition ljust :: "nat \<Rightarrow> string \<Rightarrow> string" where
  "ljust w s = s @ replicate (w - length s) CHR '' ''"

text \<open>\<^verbatim>\<open>snprintf(buf, n, ...)\<close> stores at most \<^verbatim>\<open>n - 1\<close> characters of the formatted text.\<close>

definition snprintf :: "nat \<Rightarrow> string \<Rightarrow> string" where
  "snprintf n s = take (n - 1) s"

text \<open>
  The scaled branches of \<^verbatim>\<open>fmt_size\<close> compute \<^verbatim>\<open>size / (double)ONE_GB\<close> (or \<^verbatim>\<open>ONE_MB\<close>,
  \<^verbatim>\<open>ONE_KB\<close>) and print it with \<^verbatim>\<open>%6.1f\<close>. The division first converts the 64-bit \<^verbatim>\<open>size\<close>
  to a double: exactly when it is below \<^verbatim>\<open>2^53\<close>, otherwise to the nearest value with a
  53-bit significand, a tie going to the even one (\<^verbatim>\<open>double_of_long\<close>). The divisor is a
  power of two, so the quotient is exactly \<^verbatim>\<open>double_of_long size / d\<close>, and the model keeps it
  as that fraction of two naturals. \<^verbatim>\<open>%.1f\<close> then prints the decimal with one digit after the
  point that is nearest to this exact value, a tie going to the even digit (the C library's
  rounding in the default rounding mode); \<^verbatim>\<open>printf_1f m d\<close> prints the fraction \<^verbatim>\<open>m / d\<close> so.
  \<^verbatim>\<open>round_half_even n d\<close> is \<^verbatim>\<open>n / d\<close> rounded to the nearest natural, ties to even.
\<close>

definition round_half_even :: "nat \<Rightarrow> nat \<Rightarrow> nat" where
  "round_half_even n d =
     (let q = n div d; r = n mod d
      in if 2 * r > d \<or> (2 * r = d \<and> odd q) then q + 1 else q)"

fun ulp_shift :: "nat \<Rightarrow> nat" where
  "ulp_shift n = (if n < 2 ^ 53 then 0 else Suc (ulp_shift (n div 2)))"

declare ulp_shift.simps [simp del]

definition double_of_long :: "nat \<Rightarrow> nat" where
  "double_of_long n = (let e = ulp_shift n in round_half_even n (2 ^ e) * 2 ^ e)"

definition printf_1f :: "nat \<Rightarrow> nat \<Rightarrow> string" where
  "printf_1f m d = (let t = round_half_even (10 * m) d in dec (t div 10) @ ''.'' @ dec (t mod 10))"

section \<open>The size field (fmt\_size)\<close>

text \<open>
  \<^verbatim>\<open>off_t\<close> is the 64-bit signed \<^verbatim>\<open>long\<close> that \<^verbatim>\<open>%7ld\<close> expects; \<^verbatim>\<open>sint\<close> reads the word as such.
  The plain rendering is always written to the buffer first and is what is returned when
  none of the three thresholds is reached.
\<close>

definition ONE_KB :: int where "ONE_KB = 1024"
definition ONE_MB :: int where "ONE_MB = ONE_KB * ONE_KB"
definition ONE_GB :: int where "ONE_GB = ONE_MB * ONE_KB"

definition fmt_size :: "arg_t \<Rightarrow> 64 word \<Rightarrow> string" where
  "fmt_size g sz =
     (let buf = snprintf 32 (rjust 7 (printf_d (sint sz)))
      in if human g = 0 then buf
         else if sint sz \<ge> ONE_GB then
           snprintf 32 (rjust 6 (printf_1f (double_of_long (nat (sint sz))) (nat ONE_GB)) @ ''G'')
         else if sint sz \<ge> ONE_MB then
           snprintf 32 (rjust 6 (printf_1f (double_of_long (nat (sint sz))) (nat ONE_MB)) @ ''M'')
         else if sint sz \<ge> ONE_KB then
           snprintf 32 (rjust 6 (printf_1f (double_of_long (nat (sint sz))) (nat ONE_KB)) @ ''K'')
         else buf)"

text \<open>
  The reader used by the round-trip property of the size field. It is not part of \<^verbatim>\<open>ls.c\<close>:
  it skips the padding spaces and reads the remaining characters, which must all be
  decimal digits, as a number.
\<close>

definition is_digit :: "char \<Rightarrow> bool" where
  "is_digit c = (48 \<le> (of_char c :: nat) \<and> (of_char c :: nat) \<le> 57)"

definition digit_val :: "char \<Rightarrow> nat" where
  "digit_val c = of_char c - 48"

definition parse_printed_digits :: "string \<Rightarrow> nat option" where
  "parse_printed_digits s =
     (let ds = dropWhile (\<lambda>c. c = CHR '' '') s
      in if ds \<noteq> [] \<and> list_all is_digit ds
         then Some (foldl (\<lambda>acc c. 10 * acc + digit_val c) 0 ds)
         else None)"

section \<open>The sorter (cmp and sort)\<close>

text \<open>
  \<^verbatim>\<open>strcasecmp\<close> is the C library's: it compares the two strings byte by byte as unsigned
  chars after \<^verbatim>\<open>tolower\<close> and returns the difference at the first position where they
  differ, or 0 when the first string ends there. The program never calls \<^verbatim>\<open>setlocale\<close>, so
  \<^verbatim>\<open>tolower\<close> is the one of the C locale: only \<^verbatim>\<open>A\<close> to \<^verbatim>\<open>Z\<close> change. A NUL byte ends a C
  string, which is why the loop also stops on one inside the list.
\<close>

definition tolower :: "char \<Rightarrow> int" where
  "tolower c = (let n = of_char c :: nat in if 65 \<le> n \<and> n \<le> 90 then int (n + 32) else int n)"

fun strcasecmp :: "string \<Rightarrow> string \<Rightarrow> int" where
  "strcasecmp [] s2 = 0 - tolower (char_at s2 0)"
| "strcasecmp (a # s1) s2 =
     (let c1 = tolower a; c2 = tolower (char_at s2 0)
      in if c1 - c2 \<noteq> 0 then c1 - c2
         else if a = CHR 0x00 then 0
         else strcasecmp s1 (tl s2))"

text \<open>\<^verbatim>\<open>cmp\<close> dereferences the two array slots and calls \<^verbatim>\<open>strcasecmp\<close>.\<close>

definition cmp :: "string \<Rightarrow> string \<Rightarrow> int" where
  "cmp s1 s2 = strcasecmp s1 s2"

text \<open>
  \<^verbatim>\<open>qsort\<close> is the C library's. The model is the merge sort of the GNU C library
  (\<^verbatim>\<open>msort_with_tmp\<close> in \<^verbatim>\<open>stdlib/msort.c\<close>), which \<^verbatim>\<open>qsort\<close> runs whenever it can get its
  temporary array: an array of at most one element is left as it is; otherwise the array
  is cut after its first \<^verbatim>\<open>n / 2\<close> elements, the two parts are sorted, and they are merged,
  the head of the first part being taken as long as it compares \<^verbatim>\<open><= 0\<close> with the head of
  the second. The C standard itself leaves the order of elements that compare as equal
  unspecified; this \<^verbatim>\<open>qsort\<close> keeps them in their input order.
\<close>

fun msort_merge :: "('a \<Rightarrow> 'a \<Rightarrow> int) \<Rightarrow> 'a list \<Rightarrow> 'a list \<Rightarrow> 'a list" where
  "msort_merge c [] b2 = b2"
| "msort_merge c (x # b1) [] = x # b1"
| "msort_merge c (x # b1) (y # b2) =
     (if c x y \<le> 0 then x # msort_merge c b1 (y # b2) else y # msort_merge c (x # b1) b2)"

function msort_with_tmp :: "('a \<Rightarrow> 'a \<Rightarrow> int) \<Rightarrow> 'a list \<Rightarrow> 'a list" where
  "msort_with_tmp c b =
     (if length b \<le> 1 then b
      else
        let n1 = length b div 2
        in msort_merge c (msort_with_tmp c (take n1 b)) (msort_with_tmp c (drop n1 b)))"
  by pat_completeness auto
termination
  by (relation "measure (\<lambda>(c, b). length b)") auto

declare msort_with_tmp.simps [simp del]

definition qsort :: "('a \<Rightarrow> 'a \<Rightarrow> int) \<Rightarrow> 'a list \<Rightarrow> 'a list" where
  "qsort c b = msort_with_tmp c b"

text \<open>
  \<^verbatim>\<open>sort(files, n)\<close> is \<^verbatim>\<open>qsort(files, n, sizeof(char*), cmp)\<close> (named \<^verbatim>\<open>sort_ls\<close> here, \<^verbatim>\<open>sort\<close>
  being a list function of HOL).
\<close>

definition sort_ls :: "string list \<Rightarrow> string list" where
  "sort_ls names = qsort cmp names"

text \<open>
  The key that \<^verbatim>\<open>cmp\<close> compares by: the lower-cased bytes of the C string, ordered
  lexicographically.
\<close>

definition name_key :: "string \<Rightarrow> int list" where
  "name_key s = map tolower (takeWhile (\<lambda>c. c \<noteq> CHR 0x00) s)"

section \<open>usage and err\_sys\<close>

definition nl :: string where
  "nl = [CHR 0x0A]"

definition usage_text :: string where
  "usage_text =
     ''Usage: ls -[aAhL] [FILE]...'' @ nl @
     ''List information about the FILEs (the current directory by default).'' @ nl @
     ''Sort entries alphabetically'' @ nl @ nl @
     ''-a, --all               do not ignore entries starting with .'' @ nl @
     ''-A, --almost-all        do not list implied . and ..'' @ nl @
     ''-h, --human-readable    print sizes in human readable format'' @ nl @
     ''-L, --dereference       follow symbolic link when showing information'' @ nl @
     ''--help                  show this message'' @ nl"

definition usage :: "world \<Rightarrow> world" where
  "usage w = emit usage_text w"

definition MAXLINE :: nat where "MAXLINE = 2048"

text \<open>
  \<^verbatim>\<open>err_sys\<close>, called with the message already formatted: the message is cut to the buffer,
  \<^verbatim>\<open>": "\<close> and the text of \<^verbatim>\<open>errno\<close> are added in the room that is left, then a newline, and
  the line goes to standard error.
\<close>

definition err_text :: "os \<Rightarrow> string \<Rightarrow> int \<Rightarrow> string" where
  "err_text sys msg e =
     (let buf = snprintf MAXLINE msg
      in buf @ snprintf (MAXLINE - length buf) ('': '' @ os_strerror sys e) @ nl)"

definition err_sys :: "os \<Rightarrow> string \<Rightarrow> world \<Rightarrow> world" where
  "err_sys sys msg w = w\<lparr>w_stderr := w_stderr w @ err_text sys msg (w_errno w)\<rparr>"

section \<open>Classification of the targets (isdir and classify)\<close>

text \<open>The file-type and permission bits of \<^verbatim>\<open>sys/stat.h\<close> (octal 0170000, 0040000, ...).\<close>

definition S_IFMT :: "32 word" where "S_IFMT = 0xF000"
definition S_IFSOCK :: "32 word" where "S_IFSOCK = 0xC000"
definition S_IFLNK :: "32 word" where "S_IFLNK = 0xA000"
definition S_IFBLK :: "32 word" where "S_IFBLK = 0x6000"
definition S_IFDIR :: "32 word" where "S_IFDIR = 0x4000"
definition S_IFCHR :: "32 word" where "S_IFCHR = 0x2000"
definition S_IFIFO :: "32 word" where "S_IFIFO = 0x1000"

definition S_ISDIR :: "32 word \<Rightarrow> bool" where "S_ISDIR m = (m AND S_IFMT = S_IFDIR)"
definition S_ISLNK :: "32 word \<Rightarrow> bool" where "S_ISLNK m = (m AND S_IFMT = S_IFLNK)"
definition S_ISCHR :: "32 word \<Rightarrow> bool" where "S_ISCHR m = (m AND S_IFMT = S_IFCHR)"
definition S_ISBLK :: "32 word \<Rightarrow> bool" where "S_ISBLK m = (m AND S_IFMT = S_IFBLK)"
definition S_ISFIFO :: "32 word \<Rightarrow> bool" where "S_ISFIFO m = (m AND S_IFMT = S_IFIFO)"
definition S_ISSOCK :: "32 word \<Rightarrow> bool" where "S_ISSOCK m = (m AND S_IFMT = S_IFSOCK)"

definition isdir :: "os \<Rightarrow> string \<Rightarrow> world \<Rightarrow> int \<times> world" where
  "isdir sys path w =
     (case sys_stat sys path w of
        (Inl e, w1) \<Rightarrow> (0, w1)
      | (Inr buf, w1) \<Rightarrow> (if S_ISDIR (st_mode buf) then 1 else 0, w1))"

text \<open>
  The loop of \<^verbatim>\<open>classify\<close> over \<^verbatim>\<open>g_args.files[0 .. g_args.fc - 1]\<close>; \<^verbatim>\<open>dirs\<close> and \<^verbatim>\<open>files\<close> are
  the parts of the two output arrays filled so far (\<^verbatim>\<open>di\<close> and \<^verbatim>\<open>fi\<close> are their lengths).
\<close>

fun classify_loop ::
  "os \<Rightarrow> string list \<Rightarrow> string list \<Rightarrow> string list \<Rightarrow> world \<Rightarrow> (string list \<times> string list) \<times> world" where
  "classify_loop sys [] dirs fs w = ((dirs, fs), w)"
| "classify_loop sys (t # ts) dirs fs w =
     (case isdir sys t w of
        (r, w1) \<Rightarrow>
          if r \<noteq> 0 then classify_loop sys ts (dirs @ [t]) fs w1
          else classify_loop sys ts dirs (fs @ [t]) w1)"

definition targets :: "arg_t \<Rightarrow> string list" where
  "targets g = take (nat (fc g)) (files g)"

definition classify :: "os \<Rightarrow> arg_t \<Rightarrow> world \<Rightarrow> (string list \<times> string list) \<times> world" where
  "classify sys g w = classify_loop sys (targets g) [] [] w"

section \<open>The metadata formatter\<close>

definition get_stat :: "os \<Rightarrow> arg_t \<Rightarrow> string \<Rightarrow> world \<Rightarrow> (int + stat_t) \<times> world" where
  "get_stat sys g path w = (if follow g \<noteq> 0 then sys_stat sys path w else sys_lstat sys path w)"

definition S_IRUSR :: "32 word" where "S_IRUSR = 0x100"
definition S_IWUSR :: "32 word" where "S_IWUSR = 0x80"
definition S_IXUSR :: "32 word" where "S_IXUSR = 0x40"
definition S_IRGRP :: "32 word" where "S_IRGRP = 0x20"
definition S_IWGRP :: "32 word" where "S_IWGRP = 0x10"
definition S_IXGRP :: "32 word" where "S_IXGRP = 0x8"
definition S_IROTH :: "32 word" where "S_IROTH = 0x4"
definition S_IWOTH :: "32 word" where "S_IWOTH = 0x2"
definition S_IXOTH :: "32 word" where "S_IXOTH = 0x1"

text \<open>One position of the permission string: \<^verbatim>\<open>if ((b & mode) == b) ms[i] = c\<close>, else \<^verbatim>\<open>-\<close>.\<close>

definition perm_bit :: "32 word \<Rightarrow> 32 word \<Rightarrow> char \<Rightarrow> char" where
  "perm_bit b mode c = (if b AND mode = b then c else CHR ''-'')"

definition fmt_mode :: "32 word \<Rightarrow> string" where
  "fmt_mode mode =
     [ if S_ISDIR mode then CHR ''d''
       else if S_ISLNK mode then CHR ''l''
       else if S_ISCHR mode then CHR ''c''
       else if S_ISBLK mode then CHR ''b''
       else if S_ISFIFO mode then CHR ''p''
       else if S_ISSOCK mode then CHR ''s''
       else CHR ''-'',
       perm_bit S_IRUSR mode CHR ''r'', perm_bit S_IWUSR mode CHR ''w'', perm_bit S_IXUSR mode CHR ''x'',
       perm_bit S_IRGRP mode CHR ''r'', perm_bit S_IWGRP mode CHR ''w'', perm_bit S_IXGRP mode CHR ''x'',
       perm_bit S_IROTH mode CHR ''r'', perm_bit S_IWOTH mode CHR ''w'', perm_bit S_IXOTH mode CHR ''x'' ]"

text \<open>
  \<^verbatim>\<open>fmt_owner\<close> and \<^verbatim>\<open>fmt_group\<close>: the name, or the empty string for a \<^verbatim>\<open>NULL\<close> result; the
  library call may leave another value in \<^verbatim>\<open>errno\<close>.
\<close>

definition fmt_owner :: "os \<Rightarrow> 32 word \<Rightarrow> world \<Rightarrow> string \<times> world" where
  "fmt_owner sys uid w =
     (case os_getpwuid sys uid (w_errno w) of
        (pwd, e) \<Rightarrow> ((case pwd of None \<Rightarrow> [] | Some pw_name \<Rightarrow> pw_name), w\<lparr>w_errno := e\<rparr>))"

definition fmt_group :: "os \<Rightarrow> 32 word \<Rightarrow> world \<Rightarrow> string \<times> world" where
  "fmt_group sys gid w =
     (case os_getgrgid sys gid (w_errno w) of
        (grp, e) \<Rightarrow> ((case grp of None \<Rightarrow> [] | Some gr_name \<Rightarrow> gr_name), w\<lparr>w_errno := e\<rparr>))"

text \<open>
  \<^verbatim>\<open>fmt_time\<close> passes the result of \<^verbatim>\<open>localtime\<close> to \<^verbatim>\<open>strftime\<close> unchecked: a \<^verbatim>\<open>NULL\<close> is read
  through there.
\<close>

definition fmt_time :: "os \<Rightarrow> 64 word \<Rightarrow> halt + string" where
  "fmt_time sys t = (case os_strftime sys t of None \<Rightarrow> Inl Fault | Some s \<Rightarrow> Inr s)"

text \<open>
  \<^verbatim>\<open>fmt_name\<close>. For a symbolic link the buffer of 4096 bytes receives \<^verbatim>\<open>name -> \<close> and then
  as much of the target as \<^verbatim>\<open>readlink\<close> may write in the room that is left (names of 4092
  bytes or more, which overflow the buffer in the source, are outside the model).
\<close>

definition fmt_name :: "os \<Rightarrow> stat_t \<Rightarrow> string \<Rightarrow> world \<Rightarrow> (halt + string) \<times> world" where
  "fmt_name sys st name w =
     (if S_ISLNK (st_mode st) then
        (case alloc sys w of
           (False, w1) \<Rightarrow> (Inl (Exit 1), err_sys sys ''ls: no memory'' w1)
         | (True, w1) \<Rightarrow>
             (let prefix = snprintf 4096 (name @ '' -> '');
                  offset = length (name @ '' -> '')
              in case sys_readlink sys name w1 of
                   (Inl e, w2) \<Rightarrow> (Inl (Exit 1), err_sys sys (''ls: can not read link '' @ name) w2)
                 | (Inr target, w2) \<Rightarrow> (Inr (prefix @ take (4096 - offset) target), w2)))
      else (Inr name, w))"

text \<open>
  \<^verbatim>\<open>pr_line\<close> prints field by field: each formatter runs just before its field is
  written, so what precedes a fatal error in \<^verbatim>\<open>fmt_time\<close> or \<^verbatim>\<open>fmt_name\<close> is already on
  standard output.
\<close>

definition pr_line :: "os \<Rightarrow> arg_t \<Rightarrow> stat_t \<Rightarrow> string \<Rightarrow> world \<Rightarrow> (halt + unit) \<times> world" where
  "pr_line sys g buf name w =
     (let w1 = emit (ljust 6 (printf_d (sint (st_ino buf))) @ '' '') w;
          w2 = emit (ljust 2 (printf_d (sint (ucast (st_nlink buf) :: 32 word))) @ '' '') w1;
          w3 = emit (fmt_mode (st_mode buf) @ '' '') w2
      in case fmt_owner sys (st_uid buf) w3 of
           (owner, w4) \<Rightarrow>
             (case fmt_group sys (st_gid buf) (emit (ljust 8 owner @ '' '') w4) of
                (grp, w5) \<Rightarrow>
                  (let w6 = emit (ljust 8 grp @ '' '') w5;
                       w7 = emit (fmt_size g (st_size buf) @ '' '') w6
                   in case fmt_time sys (st_mtime buf) of
                        Inl h \<Rightarrow> (Inl h, w7)
                      | Inr t \<Rightarrow>
                          (case fmt_name sys buf name (emit (t @ '' '') w7) of
                             (Inl h, w8) \<Rightarrow> (Inl h, w8)
                           | (Inr fname, w8) \<Rightarrow> (Inr (), emit nl (emit fname w8))))))"

section \<open>The reporter (do\_files, listdir, do\_dirs, main)\<close>

fun do_files :: "os \<Rightarrow> arg_t \<Rightarrow> string list \<Rightarrow> world \<Rightarrow> (halt + unit) \<times> world" where
  "do_files sys g [] w = (Inr (), w)"
| "do_files sys g (file # rest) w =
     (if skip g file \<noteq> 0 then do_files sys g rest w
      else
        (case get_stat sys g file w of
           (Inl e, w1) \<Rightarrow> do_files sys g rest (err_sys sys (''ls: can not access '' @ file) w1)
         | (Inr buf, w1) \<Rightarrow>
             (case pr_line sys g buf file w1 of
                (Inl h, w2) \<Rightarrow> (Inl h, w2)
              | (Inr u, w2) \<Rightarrow> do_files sys g rest w2)))"

text \<open>
  The \<^verbatim>\<open>readdir\<close> loop of \<^verbatim>\<open>listdir\<close>: \<^verbatim>\<open>n\<close> is the capacity, \<^verbatim>\<open>acc\<close> the names stored so far
  (\<^verbatim>\<open>off\<close> is its length). When the array is full it is doubled by \<^verbatim>\<open>realloc\<close>, whose result
  is assigned unchecked; after a failed \<^verbatim>\<open>realloc\<close> the next store goes through the null
  pointer.
\<close>

fun readdir_loop ::
  "os \<Rightarrow> string list \<Rightarrow> nat \<Rightarrow> string list \<Rightarrow> world \<Rightarrow> (halt + string list option) \<times> world" where
  "readdir_loop sys [] n acc w = (Inr (Some acc), w)"
| "readdir_loop sys (d_name # rest) n acc w =
     (if length acc \<ge> n then
        (case alloc sys w of
           (False, w1) \<Rightarrow> (Inl Fault, w1)
         | (True, w1) \<Rightarrow> readdir_loop sys rest (n * 2) (acc @ [d_name]) w1)
      else readdir_loop sys rest n (acc @ [d_name]) w)"

definition listdir :: "os \<Rightarrow> string \<Rightarrow> world \<Rightarrow> (halt + string list option) \<times> world" where
  "listdir sys dir w =
     (case alloc sys w of
        (False, w1) \<Rightarrow> (Inl (Exit 1), err_sys sys ''ls: no memory'' w1)
      | (True, w1) \<Rightarrow>
          (case sys_opendir sys dir w1 of
             (Inl e, w2) \<Rightarrow> (Inr None, err_sys sys (''ls: can not access '' @ dir) w2)
           | (Inr names, w2) \<Rightarrow> readdir_loop sys names 32 [] w2))"

text \<open>
  The loop of \<^verbatim>\<open>do_dirs\<close>; \<^verbatim>\<open>dc\<close> is the number of directories and \<^verbatim>\<open>cwd\<close> the saved working
  directory (\<^verbatim>\<open>None\<close> when the unchecked \<^verbatim>\<open>malloc\<close> of its buffer returned \<^verbatim>\<open>NULL\<close>).
\<close>

fun do_dirs_loop ::
  "os \<Rightarrow> arg_t \<Rightarrow> int \<Rightarrow> string option \<Rightarrow> string list \<Rightarrow> world \<Rightarrow> (halt + unit) \<times> world" where
  "do_dirs_loop sys g dc cwd [] w = (Inr (), w)"
| "do_dirs_loop sys g dc cwd (dir # rest) w =
     (case listdir sys dir w of
        (Inl h, w1) \<Rightarrow> (Inl h, w1)
      | (Inr None, w1) \<Rightarrow> do_dirs_loop sys g dc cwd rest w1
      | (Inr (Some names), w1) \<Rightarrow>
          (let sorted_names = sort_ls names
           in case sys_chdir sys (Some dir) w1 of
                (Inl e, w2) \<Rightarrow> do_dirs_loop sys g dc cwd rest (err_sys sys ''ls: can not chdir'' w2)
              | (Inr u, w2) \<Rightarrow>
                  (let w3 = (if dc > 0 \<and> fc g > 1 then emit (nl @ dir @ '':'' @ nl) w2 else w2)
                   in case do_files sys g sorted_names w3 of
                        (Inl h, w4) \<Rightarrow> (Inl h, w4)
                      | (Inr u, w4) \<Rightarrow>
                          (case sys_chdir sys cwd w4 of
                             (Inl e, w5) \<Rightarrow> (Inl (Exit 1), err_sys sys ''ls: can not chdir'' w5)
                           | (Inr u, w5) \<Rightarrow> do_dirs_loop sys g dc cwd rest w5))))"

definition do_dirs :: "os \<Rightarrow> arg_t \<Rightarrow> string list \<Rightarrow> world \<Rightarrow> (halt + unit) \<times> world" where
  "do_dirs sys g dirs w =
     (case alloc sys w of
        (ok, w1) \<Rightarrow>
          (case sys_getcwd sys (\<not> ok) w1 of
             (Inl e, w2) \<Rightarrow> (Inl (Exit 1), err_sys sys ''ls: can not get current dir'' w2)
           | (Inr d, w2) \<Rightarrow>
               do_dirs_loop sys g (int (length dirs)) (if ok then Some d else None) dirs w2))"

text \<open>
  \<^verbatim>\<open>main\<close>, given the results of the calls of \<^verbatim>\<open>getopt_long\<close> and the operands (see
  \<^verbatim>\<open>parse_args\<close>). The result is how the process ends and the final state.
\<close>

definition main :: "os \<Rightarrow> (int \<times> string) list \<Rightarrow> string list \<Rightarrow> world \<Rightarrow> halt \<times> world" where
  "main sys rs operands w0 =
     (case parse_args rs operands g_args w0 of
        ((r, g), w) \<Rightarrow>
          if r \<noteq> 0 then (Exit 0, usage w)
          else
            (case alloc sys w of
               (ok1, w1) \<Rightarrow>
                 (case alloc sys w1 of
                    (ok2, w2) \<Rightarrow>
                      if \<not> ok1 \<or> \<not> ok2 then (Exit 1, w2)
                      else
                        (case classify sys g w2 of
                           ((dirs, fs), w3) \<Rightarrow>
                             (let sorted_files = sort_ls fs;
                                  sorted_dirs = sort_ls dirs
                              in case do_files sys g sorted_files w3 of
                                   (Inl h, w4) \<Rightarrow> (h, w4)
                                 | (Inr u, w4) \<Rightarrow>
                                     (case do_dirs sys g sorted_dirs w4 of
                                        (Inl h, w5) \<Rightarrow> (h, w5)
                                      | (Inr u, w5) \<Rightarrow> (Exit 0, w5)))))))"

section \<open>A small file system to run the model on\<close>

definition reg_file :: "64 word \<Rightarrow> 64 word \<Rightarrow> stat_t" where
  "reg_file ino sz = \<lparr>st_ino = ino, st_nlink = 1, st_mode = 0x81A4, st_uid = 1000, st_gid = 1000,
     st_size = sz, st_mtime = 0\<rparr>"

definition directory :: "64 word \<Rightarrow> stat_t" where
  "directory ino = \<lparr>st_ino = ino, st_nlink = 2, st_mode = 0x41ED, st_uid = 1000, st_gid = 1000,
     st_size = 4096, st_mtime = 0\<rparr>"

definition symlink :: "64 word \<Rightarrow> 64 word \<Rightarrow> stat_t" where
  "symlink ino sz = \<lparr>st_ino = ino, st_nlink = 1, st_mode = 0xA1FF, st_uid = 1000, st_gid = 1000,
     st_size = sz, st_mtime = 0\<rparr>"

definition ex_lstat :: "string \<Rightarrow> string \<Rightarrow> int + stat_t" where
  "ex_lstat cwd path =
     (if cwd = ''/home'' then
        (if path = ''notes.txt'' then Inr (reg_file 11 1536)
         else if path = ''.hidden'' then Inr (reg_file 12 12)
         else if path = ''docs'' then Inr (directory 13)
         else if path = ''link'' then Inr (symlink 14 4)
         else if path = ''big'' then Inr (directory 15)
         else Inl 2)
      else if cwd = ''/home/docs'' then
        (if path = ''.'' then Inr (directory 13)
         else if path = ''..'' then Inr (directory 2)
         else if path = ''b.txt'' then Inr (reg_file 21 5)
         else if path = ''.cfg'' then Inr (reg_file 22 7)
         else Inl 2)
      else Inl 2)"

definition ex_stat :: "string \<Rightarrow> string \<Rightarrow> int + stat_t" where
  "ex_stat cwd path =
     (if cwd = ''/home'' \<and> path = ''link'' then Inr (directory 13) else ex_lstat cwd path)"

definition ex_readlink :: "string \<Rightarrow> string \<Rightarrow> int + string" where
  "ex_readlink cwd path = (if cwd = ''/home'' \<and> path = ''link'' then Inr ''docs'' else Inl 22)"

definition big_names :: "string list" where
  "big_names = [''f00'', ''f01'', ''f02'', ''f03'', ''f04'', ''f05'', ''f06'', ''f07'', ''f08'', ''f09'', ''f10'', ''f11'', ''f12'', ''f13'', ''f14'', ''f15'', ''f16'', ''f17'', ''f18'', ''f19'', ''f20'', ''f21'', ''f22'', ''f23'', ''f24'', ''f25'', ''f26'', ''f27'', ''f28'', ''f29'', ''f30'', ''f31'', ''f32'']"

definition ex_readdir :: "string \<Rightarrow> string \<Rightarrow> int + string list" where
  "ex_readdir cwd path =
     (if cwd = ''/home'' \<and> (path = ''docs'' \<or> path = ''link'')
        then Inr [''b.txt'', ''.'', ''gone'', ''.cfg'', ''..'']
      else if cwd = ''/home'' \<and> path = ''big'' then Inr big_names
      else Inl 2)"

definition ex_chdir :: "string \<Rightarrow> string \<Rightarrow> int + string" where
  "ex_chdir cwd path =
     (if path = ''/home'' then Inr ''/home''
      else if cwd = ''/home'' \<and> (path = ''docs'' \<or> path = ''link'') then Inr ''/home/docs''
      else if cwd = ''/home'' \<and> path = ''big'' then Inr ''/home/big''
      else Inl 2)"

definition ex_strerror :: "int \<Rightarrow> string" where
  "ex_strerror e =
     (if e = 2 then ''No such file or directory''
      else if e = 12 then ''Cannot allocate memory''
      else ''Error'')"

definition os_example :: os where
  "os_example = \<lparr>
     os_stat = ex_stat, os_lstat = ex_lstat, os_readlink = ex_readlink, os_readdir = ex_readdir,
     os_chdir = ex_chdir, os_getcwd = (\<lambda>cwd buf_null. Inr cwd), os_alloc = (\<lambda>n. True),
     os_getpwuid = (\<lambda>uid e. (if uid = 1000 then Some ''ann'' else None, 0)),
     os_getgrgid = (\<lambda>gid e. (if gid = 1000 then Some ''staff'' else None, 0)),
     os_strftime = (\<lambda>t. Some ''1970-01-01 00:00''), os_strerror = ex_strerror\<rparr>"

definition w_start :: world where
  "w_start = \<lparr>w_cwd = ''/home'', w_errno = 0, w_stdout = [], w_stderr = [], w_allocs = 0, w_trace = []\<rparr>"

section \<open>Vocabulary for the traces\<close>

text \<open>
  The metadata lookups among the system calls, the lookup that \<^verbatim>\<open>get_stat\<close> makes for a path
  under given options, what that lookup answers, and whether a call agrees with the
  follow-symlinks option.
\<close>

fun is_lookup :: "syscall \<Rightarrow> bool" where
  "is_lookup (Stat p) = True"
| "is_lookup (Lstat p) = True"
| "is_lookup c = False"

definition lookups :: "syscall list \<Rightarrow> syscall list" where
  "lookups tr = filter is_lookup tr"

definition lookup_call :: "arg_t \<Rightarrow> string \<Rightarrow> syscall" where
  "lookup_call g path = (if follow g \<noteq> 0 then Stat path else Lstat path)"

definition os_lookup :: "os \<Rightarrow> arg_t \<Rightarrow> string \<Rightarrow> string \<Rightarrow> int + stat_t" where
  "os_lookup sys g cwd path = (if follow g \<noteq> 0 then os_stat sys cwd path else os_lstat sys cwd path)"

fun lookup_ok :: "arg_t \<Rightarrow> syscall \<Rightarrow> bool" where
  "lookup_ok g (Stat p) = (follow g \<noteq> 0)"
| "lookup_ok g (Lstat p) = (follow g = 0)"
| "lookup_ok g c = True"

text \<open>
  \<^verbatim>\<open>added_ok g w w'\<close>: the trace of \<^verbatim>\<open>w'\<close> is the trace of \<^verbatim>\<open>w\<close> followed by calls that all agree
  with the follow-symlinks option of \<^verbatim>\<open>g\<close>.
\<close>

definition added_ok :: "arg_t \<Rightarrow> world \<Rightarrow> world \<Rightarrow> bool" where
  "added_ok g w w' =
     (take (length (w_trace w)) (w_trace w') = w_trace w \<and>
      list_all (lookup_ok g) (drop (length (w_trace w)) (w_trace w')))"

text \<open>The access-error line that the per-entry loop writes for a name, if its lookup fails.\<close>

definition access_error :: "os \<Rightarrow> arg_t \<Rightarrow> string \<Rightarrow> string \<Rightarrow> string" where
  "access_error sys g cwd file =
     (case os_lookup sys g cwd file of
        Inl e \<Rightarrow> err_text sys (''ls: can not access '' @ file) e
      | Inr buf \<Rightarrow> [])"

text \<open>
  The example system with one allocation request failing: the \<^verbatim>\<open>realloc\<close> of \<^verbatim>\<open>listdir\<close> (the
  fifth request of a run that lists one directory), the first \<^verbatim>\<open>malloc\<close> of \<^verbatim>\<open>listdir\<close> (the
  fourth), the \<^verbatim>\<open>malloc\<close> of the working-directory buffer in \<^verbatim>\<open>do_dirs\<close> (the third).
\<close>

definition os_realloc_fails :: os where
  "os_realloc_fails = os_example\<lparr>os_alloc := (\<lambda>n. n \<noteq> 4)\<rparr>"

definition os_malloc_fails :: os where
  "os_malloc_fails = os_example\<lparr>os_alloc := (\<lambda>n. n \<noteq> 3)\<rparr>"

definition os_cwd_malloc_fails :: os where
  "os_cwd_malloc_fails = os_example\<lparr>os_alloc := (\<lambda>n. n \<noteq> 2)\<rparr>"

section \<open>Properties of the options and the filter\<close>

lemma char_at_0_dot: "(char_at name 0 = CHR ''.'') = (\<exists>rest. name = CHR ''.'' # rest)"
  by (cases name) (auto simp: char_at_def)

lemma getopt_loop_fields:
  assumes "- 1 \<notin> fst ` set rs" and "fst (fst (getopt_loop rs g w)) = 0"
  shows "all (snd (fst (getopt_loop rs g w))) =
           (if of_char CHR ''a'' \<in> fst ` set rs then 1 else all g) \<and>
         almost (snd (fst (getopt_loop rs g w))) =
           (if of_char CHR ''A'' \<in> fst ` set rs then 1 else almost g) \<and>
         human (snd (fst (getopt_loop rs g w))) =
           (if of_char CHR ''h'' \<in> fst ` set rs then 1 else human g) \<and>
         follow (snd (fst (getopt_loop rs g w))) =
           (if of_char CHR ''L'' \<in> fst ` set rs then 1 else follow g) \<and>
         files (snd (fst (getopt_loop rs g w))) = files g \<and>
         fc (snd (fst (getopt_loop rs g w))) = fc g"
  using assms
proof (induction rs g w rule: getopt_loop.induct)
  case (1 g w)
  show ?case by simp
next
  case (2 opt diag rest g w)
  have m: "- 1 \<notin> fst ` set rest" and o: "opt \<noteq> - 1"
    using "2.prems"(1) by auto
  consider (a) "opt = of_char CHR ''a''" | (A) "opt = of_char CHR ''A''"
    | (h) "opt = of_char CHR ''h''" | (L) "opt = of_char CHR ''L''"
    using "2.prems"(2) o by (auto simp: Let_def split: if_splits)
  then show ?case
  proof cases
    case a
    then show ?thesis
      using "2.IH"(1) [OF refl o a m] "2.prems"(2) by (simp add: Let_def)
  next
    case A
    then show ?thesis
      using "2.IH"(2) [OF refl o _ A m] "2.prems"(2) by (simp add: Let_def)
  next
    case h
    then show ?thesis
      using "2.IH"(3) [OF refl o _ _ h m] "2.prems"(2) by (simp add: Let_def)
  next
    case L
    then show ?thesis
      using "2.IH"(4) [OF refl o _ _ _ L m] "2.prems"(2) by (simp add: Let_def)
  qed
qed

lemma getopt_loop_fst_indep:
  "fst (fst (getopt_loop rs g w)) = fst (fst (getopt_loop rs g' w'))"
proof (induction rs arbitrary: g g' w w')
  case Nil
  show ?case by simp
next
  case (Cons r rest)
  obtain opt diag where r: "r = (opt, diag)" by (cases r)
  show ?case
    unfolding r using Cons.IH by (simp add: Let_def)
qed

lemma getopt_loop_filter_ok:
  assumes "- 1 \<notin> fst ` set rs" and "fst (fst (getopt_loop rs g w)) = 0" and "x \<noteq> - 1"
  shows "fst (fst (getopt_loop (filter (\<lambda>r. fst r \<noteq> x) rs) g w)) = 0"
  using assms
proof (induction rs arbitrary: g w)
  case Nil
  then show ?case by simp
next
  case (Cons r rest)
  obtain opt diag where r: "r = (opt, diag)" by (cases r)
  have m: "- 1 \<notin> fst ` set rest" and o: "opt \<noteq> - 1"
    using Cons.prems(1) r by auto
  from Cons.prems(2) o obtain g0 w0 where "fst (fst (getopt_loop rest g0 w0)) = 0"
    unfolding r by (auto simp: Let_def split: if_splits)
  then have rest_ok: "fst (fst (getopt_loop rest g' w')) = 0" for g' w'
    using getopt_loop_fst_indep [of rest g' w' g0 w0] by simp
  have ih: "fst (fst (getopt_loop (filter (\<lambda>r. fst r \<noteq> x) rest) g' w')) = 0" for g' w'
    using Cons.IH [OF m rest_ok Cons.prems(3)] .
  show ?case
    unfolding r using Cons.prems(2) o ih by (auto simp: r Let_def split: if_splits)
qed

lemma parse_args_ok_iff:
  "(fst (fst (parse_args rs operands g w)) = 0) = (fst (fst (getopt_loop rs g w)) = 0)"
  by (simp add: parse_args_def Let_def split: prod.splits)

lemma parse_args_stderr:
  "snd (parse_args rs operands g w) = snd (getopt_loop rs g w)"
  by (simp add: parse_args_def Let_def split: prod.splits)

lemma parse_args_both:
  assumes m1: "- 1 \<notin> fst ` set rs"
    and a: "of_char CHR ''a'' \<in> fst ` set rs"
    and ok: "fst (fst (parse_args rs operands g_args w)) = 0"
  shows "all (snd (fst (parse_args rs operands g_args w))) = 1"
    and "almost (snd (fst (parse_args rs operands g_args w))) = 0"
    and "snd (fst (parse_args rs operands g_args w)) =
         snd (fst (parse_args (filter (\<lambda>r. fst r \<noteq> of_char CHR ''A'') rs) operands g_args w))"
proof -
  let ?A = "of_char CHR ''A'' :: int"
  let ?rs' = "filter (\<lambda>r. fst r \<noteq> ?A) rs"
  let ?r = "getopt_loop rs g_args w"
  let ?r' = "getopt_loop ?rs' g_args w"
  have ok1: "fst (fst ?r) = 0"
    using ok by (simp add: parse_args_ok_iff)
  have ok2: "fst (fst ?r') = 0"
    using m1 ok1 by (intro getopt_loop_filter_ok) simp_all
  have m2: "- 1 \<notin> fst ` set ?rs'"
    using m1 by auto
  have a2: "of_char CHR ''a'' \<in> fst ` set ?rs'"
    using a by auto
  note f1 = getopt_loop_fields [OF m1 ok1]
  note f2 = getopt_loop_fields [OF m2 ok2]
  have A2: "?A \<notin> fst ` set ?rs'"
    by auto
  have h2: "(of_char CHR ''h'' \<in> fst ` set ?rs') = (of_char CHR ''h'' \<in> fst ` set rs)"
    by auto
  have L2: "(of_char CHR ''L'' \<in> fst ` set ?rs') = (of_char CHR ''L'' \<in> fst ` set rs)"
    by auto
  obtain r1 g1 w1 where e1: "?r = ((r1, g1), w1)" by (cases ?r) auto
  obtain r2 g2 w2 where e2: "?r' = ((r2, g2), w2)" by (cases ?r') auto
  have r0: "r1 = 0" "r2 = 0"
    using ok1 ok2 e1 e2 by simp_all
  have g1: "all g1 = 1" "human g1 = (if of_char CHR ''h'' \<in> fst ` set rs then 1 else 0)"
    "follow g1 = (if of_char CHR ''L'' \<in> fst ` set rs then 1 else 0)"
    using f1 e1 a by (simp_all add: g_args_def)
  have g2: "all g2 = 1" "almost g2 = 0" "human g2 = human g1" "follow g2 = follow g1"
    using f2 e2 a2 A2 h2 L2 g1 by (simp_all add: g_args_def)
  show "all (snd (fst (parse_args rs operands g_args w))) = 1"
    using e1 r0 g1 by (simp add: parse_args_def Let_def)
  show "almost (snd (fst (parse_args rs operands g_args w))) = 0"
    using e1 r0 g1 by (simp add: parse_args_def Let_def)
  show "snd (fst (parse_args rs operands g_args w)) = snd (fst (parse_args ?rs' operands g_args w))"
    using e1 e2 r0 g1 g2 by (simp add: parse_args_def Let_def)
qed

text \<open>
  Claim C3. For every entry name, \<^verbatim>\<open>skip\<close> never suppresses when show-all is set;
  suppresses exactly \<^verbatim>\<open>.\<close> and \<^verbatim>\<open>..\<close> when show-almost-all is set and show-all is not;
  otherwise suppresses exactly the names that begin with a dot. When both \<^verbatim>\<open>-a\<close> and
  \<^verbatim>\<open>-A\<close> are among the parsed flags, \<^verbatim>\<open>parse_args\<close> clears show-almost-all and the
  resulting options are those of the same command line without \<^verbatim>\<open>-A\<close>.
\<close>

theorem skip_policy:
  "(all g \<noteq> 0 \<longrightarrow> skip g name = 0) \<and>
   (all g = 0 \<and> almost g \<noteq> 0 \<longrightarrow> (skip g name \<noteq> 0) = (name = ''.'' \<or> name = ''..'')) \<and>
   (all g = 0 \<and> almost g = 0 \<longrightarrow> (skip g name \<noteq> 0) = (\<exists>rest. name = CHR ''.'' # rest)) \<and>
   (- 1 \<notin> fst ` set rs \<and> of_char CHR ''a'' \<in> fst ` set rs \<and> of_char CHR ''A'' \<in> fst ` set rs \<and>
    fst (fst (parse_args rs operands g_args w)) = 0 \<longrightarrow>
      all (snd (fst (parse_args rs operands g_args w))) \<noteq> 0 \<and>
      almost (snd (fst (parse_args rs operands g_args w))) = 0 \<and>
      snd (fst (parse_args rs operands g_args w)) =
        snd (fst (parse_args (filter (\<lambda>r. fst r \<noteq> of_char CHR ''A'') rs) operands g_args w)) \<and>
      skip (snd (fst (parse_args rs operands g_args w))) name = 0)"
proof (intro conjI impI)
  show "skip g name = 0" if "all g \<noteq> 0"
    using that by (simp add: skip_def)
  show "(skip g name \<noteq> 0) = (name = ''.'' \<or> name = ''..'')" if "all g = 0 \<and> almost g \<noteq> 0"
    using that by (auto simp: skip_def char_at_def)
  show "(skip g name \<noteq> 0) = (\<exists>rest. name = CHR ''.'' # rest)" if "all g = 0 \<and> almost g = 0"
    using that by (simp add: skip_def char_at_0_dot)
next
  assume h: "- 1 \<notin> fst ` set rs \<and> of_char CHR ''a'' \<in> fst ` set rs \<and>
    of_char CHR ''A'' \<in> fst ` set rs \<and> fst (fst (parse_args rs operands g_args w)) = 0"
  then have m1: "- 1 \<notin> fst ` set rs" and a: "of_char CHR ''a'' \<in> fst ` set rs"
    and ok: "fst (fst (parse_args rs operands g_args w)) = 0"
    by simp_all
  note b = parse_args_both [OF m1 a ok]
  show "all (snd (fst (parse_args rs operands g_args w))) \<noteq> 0"
    using b(1) by simp
  show "almost (snd (fst (parse_args rs operands g_args w))) = 0"
    using b(2) .
  show "snd (fst (parse_args rs operands g_args w)) =
        snd (fst (parse_args (filter (\<lambda>r. fst r \<noteq> of_char CHR ''A'') rs) operands g_args w))"
    using b(3) .
  show "skip (snd (fst (parse_args rs operands g_args w))) name = 0"
    using b(1) by (simp add: skip_def)
qed

theorem skip_policy_witness:
  "skip (g_args\<lparr>all := 1\<rparr>) ''.bashrc'' = 0 \<and>
   skip (g_args\<lparr>almost := 1\<rparr>) ''..'' \<noteq> 0 \<and>
   skip (g_args\<lparr>almost := 1\<rparr>) ''.bashrc'' = 0 \<and>
   skip g_args ''.bashrc'' \<noteq> 0 \<and>
   skip g_args ''notes.txt'' = 0 \<and>
   almost (snd (fst (parse_args [(of_char CHR ''A'', []), (of_char CHR ''a'', [])] [] g_args w_start)))
     = 0 \<and>
   skip (snd (fst (parse_args [(of_char CHR ''A'', []), (of_char CHR ''a'', [])] [] g_args w_start)))
     ''..'' = 0"
  using skip_policy [of "g_args\<lparr>all := 1\<rparr>" "''.bashrc''" "[]" "[]" w_start]
    skip_policy [of "g_args\<lparr>almost := 1\<rparr>" "''..''" "[]" "[]" w_start]
    skip_policy [of "g_args\<lparr>almost := 1\<rparr>" "''.bashrc''" "[]" "[]" w_start]
    skip_policy [of g_args "''.bashrc''" "[]" "[]" w_start]
    skip_policy [of g_args "''notes.txt''" "[]" "[]" w_start]
    skip_policy [of g_args "''..''" "[(of_char CHR ''A'', []), (of_char CHR ''a'', [])]" "[]" w_start]
  by (simp add: g_args_def parse_args_def emit_err_def)

section \<open>Properties of the size field\<close>

lemma replicate_unfold: "replicate n x = (if n = 0 then [] else x # replicate (n - 1) x)"
  by (cases n) simp_all

lemma digit_char_cases:
  assumes "(d::nat) < 10"
  shows "d = 0 \<or> d = 1 \<or> d = 2 \<or> d = 3 \<or> d = 4 \<or> d = 5 \<or> d = 6 \<or> d = 7 \<or> d = 8 \<or> d = 9"
  using assms by arith

lemma digit_char_props:
  assumes "d < 10"
  shows "is_digit (digit_char d)" and "digit_val (digit_char d) = d" and "digit_char d \<noteq> CHR '' ''"
  using digit_char_cases [OF assms]
  by (auto simp: digit_char_def is_digit_def digit_val_def)

lemma dec_nonempty: "dec n \<noteq> []"
  by (subst dec.simps) simp

lemma dec_all_digits: "list_all is_digit (dec n)"
proof (induction n rule: dec.induct)
  case (1 n)
  show ?case
  proof (cases "n < 10")
    case True
    then show ?thesis by (subst dec.simps) (simp add: digit_char_props)
  next
    case False
    then show ?thesis using 1 by (subst dec.simps) (simp add: digit_char_props)
  qed
qed

lemma hd_dec_not_space: "hd (dec n) \<noteq> CHR '' ''"
  using dec_all_digits [of n] dec_nonempty [of n]
  by (cases "dec n") (auto simp: is_digit_def)

lemma foldl_dec:
  "foldl (\<lambda>acc c. 10 * acc + digit_val c) a (dec n) = a * 10 ^ length (dec n) + n"
proof (induction n arbitrary: a rule: dec.induct)
  case (1 n)
  show ?case
  proof (cases "n < 10")
    case True
    then show ?thesis by (subst (1 2) dec.simps) (simp add: digit_char_props)
  next
    case False
    then have "foldl (\<lambda>acc c. 10 * acc + digit_val c) a (dec (n div 10)) =
        a * 10 ^ length (dec (n div 10)) + n div 10" for a
      using 1 by simp
    then show ?thesis using False
      by (subst (1 2) dec.simps) (simp add: digit_char_props algebra_simps)
  qed
qed

lemma length_dec_le: "0 < k \<Longrightarrow> n < 10 ^ k \<Longrightarrow> length (dec n) \<le> k"
proof (induction n arbitrary: k rule: dec.induct)
  case (1 n)
  show ?case
  proof (cases "n < 10")
    case True
    then show ?thesis using "1.prems" by (subst dec.simps) simp
  next
    case False
    obtain j where k: "k = Suc j" using "1.prems"(1) by (cases k) auto
    have j0: "0 < j" using False "1.prems"(2) k by (cases j) auto
    have "n div 10 < 10 ^ j" using "1.prems"(2) k by (simp add: less_mult_imp_div_less mult.commute)
    then have "length (dec (n div 10)) \<le> j" using "1.IH" [OF False j0] by simp
    then show ?thesis using False k by (subst dec.simps) simp
  qed
qed

lemma parse_rjust_dec: "parse_printed_digits (rjust w (dec n)) = Some n"
proof -
  have "dropWhile (\<lambda>c. c = CHR '' '') (replicate k CHR '' '' @ dec n) = dec n" for k
    using hd_dec_not_space [of n] dec_nonempty [of n]
    by (induction k) (auto simp: dropWhile_eq_self_iff)
  then show ?thesis
    by (simp add: parse_printed_digits_def rjust_def dec_nonempty dec_all_digits foldl_dec)
qed

lemma fmt_size_plain:
  assumes "human g = 0" and "0 \<le> sint sz"
  shows "fmt_size g sz = rjust 7 (dec (nat (sint sz)))"
proof -
  have "sint sz < 2 ^ 63"
    using sint_lt [of sz] by simp
  then have "nat (sint sz) < 10 ^ 19"
    by simp
  then have "length (dec (nat (sint sz))) \<le> 19"
    by (intro length_dec_le) simp_all
  then have "length (rjust 7 (dec (nat (sint sz)))) \<le> 31"
    by (simp add: rjust_def)
  then show ?thesis
    using assms by (simp add: fmt_size_def snprintf_def printf_d_def)
qed


lemma round_half_even_accuracy:
  assumes "0 < d"
  shows "2 * \<bar>int (round_half_even n d) * int d - int n\<bar> \<le> int d"
proof -
  define q where "q = n div d"
  define r where "r = n mod d"
  have n: "int n = int q * int d + int r"
    unfolding q_def r_def by (metis div_mult_mod_eq of_nat_add of_nat_mult)
  have r: "r < d"
    unfolding r_def using assms by simp
  show ?thesis
  proof (cases "2 * r > d \<or> (2 * r = d \<and> odd q)")
    case True
    then have "round_half_even n d = q + 1"
      by (simp add: round_half_even_def q_def r_def Let_def)
    then have "int (round_half_even n d) * int d - int n = int d - int r"
      using n by (simp add: algebra_simps)
    then show ?thesis using True r by auto
  next
    case False
    then have "round_half_even n d = q"
      by (simp add: round_half_even_def q_def r_def Let_def)
    then have "int (round_half_even n d) * int d - int n = - int r"
      using n by simp
    then show ?thesis using False by auto
  qed
qed

lemma round_half_even_le: "round_half_even n d \<le> n div d + 1"
  by (simp add: round_half_even_def Let_def)

lemma ulp_shift_small: "n < 2 ^ 53 \<Longrightarrow> ulp_shift n = 0"
  by (subst ulp_shift.simps) simp

lemma pow_ulp_shift_le: "2 ^ ulp_shift n \<le> max 1 n"
proof (induction n rule: ulp_shift.induct)
  case (1 n)
  show ?case
  proof (cases "n < 2 ^ 53")
    case True
    then show ?thesis by (simp add: ulp_shift_small)
  next
    case False
    then have ih: "2 ^ ulp_shift (n div 2) \<le> max 1 (n div 2)"
      using 1 by simp
    have "ulp_shift n = Suc (ulp_shift (n div 2))"
      using False by (subst ulp_shift.simps) simp
    moreover have "2 * max 1 (n div 2) \<le> max 1 n"
      using False by (simp add: max_def)
    ultimately show ?thesis using ih by simp
  qed
qed

lemma double_of_long_exact: "n < 2 ^ 53 \<Longrightarrow> double_of_long n = n"
  by (simp add: double_of_long_def ulp_shift_small round_half_even_def)

lemma double_of_long_le: "0 < n \<Longrightarrow> double_of_long n \<le> 2 * n"
proof -
  assume n: "0 < n"
  define e where "e = ulp_shift n"
  have "round_half_even n (2 ^ e) * 2 ^ e \<le> (n div 2 ^ e + 1) * 2 ^ e"
    using round_half_even_le [of n "2 ^ e"] by (simp only: mult_le_mono1)
  also have "\<dots> = (n div 2 ^ e) * 2 ^ e + 2 ^ e"
    by (simp add: algebra_simps)
  also have "\<dots> \<le> n + 2 ^ e"
    by simp
  also have "\<dots> \<le> n + n"
    using pow_ulp_shift_le [of n] n by (simp add: e_def max_def split: if_splits)
  finally show ?thesis
    by (simp add: double_of_long_def e_def Let_def)
qed

text \<open>The scaled branches: shape, unit and accuracy of the printed number.\<close>

lemma scaled_field:
  assumes d: "1024 \<le> d" and n: "0 < n" "n < 2 ^ 63"
  shows "\<exists>ip f. f < 10 \<and>
           snprintf 32 (rjust 6 (printf_1f (double_of_long n) d) @ [u]) =
             rjust 6 (dec ip @ ''.'' @ dec f) @ [u] \<and>
           2 * \<bar>int (10 * ip + f) * int d - 10 * int (double_of_long n)\<bar> \<le> int d"
proof -
  define D where "D = double_of_long n"
  define t where "t = round_half_even (10 * D) d"
  have D: "D < 2 ^ 64"
    using double_of_long_le [OF n(1)] n(2) by (simp add: D_def)
  have "t \<le> (10 * D) div d + 1"
    unfolding t_def by (rule round_half_even_le)
  also have "\<dots> \<le> (10 * D) div 1024 + 1"
    using div_le_mono2 [of 1024 d "10 * D"] d by (simp del: div_mult_self1_is_m div_mult_self_is_m)
  also have "\<dots> < 10 ^ 18"
    using D by simp
  finally have t: "t < 10 ^ 18" .
  then have "t div 10 < 10 ^ 17"
    by simp
  then have l1: "length (dec (t div 10)) \<le> 17"
    by (intro length_dec_le) simp_all
  have l2: "length (dec (t mod 10)) \<le> 1"
    by (intro length_dec_le) simp_all
  have len: "length (rjust 6 (dec (t div 10) @ ''.'' @ dec (t mod 10)) @ [u]) \<le> 31"
    using l1 l2 by (simp add: rjust_def)
  have acc: "2 * \<bar>int t * int d - int (10 * D)\<bar> \<le> int d"
    unfolding t_def using d by (intro round_half_even_accuracy) simp
  have "snprintf 32 (rjust 6 (printf_1f D d) @ [u]) =
        rjust 6 (dec (t div 10) @ ''.'' @ dec (t mod 10)) @ [u]"
    using len by (simp add: snprintf_def printf_1f_def t_def Let_def)
  moreover have "t mod 10 < 10"
    by simp
  moreover have "2 * \<bar>int (10 * (t div 10) + t mod 10) * int d - 10 * int D\<bar> \<le> int d"
    using acc by simp
  ultimately show ?thesis
    unfolding D_def by blast
qed

lemmas fmt_eval = fmt_size_def ONE_GB_def ONE_MB_def ONE_KB_def snprintf_def rjust_def printf_1f_def
    double_of_long_def ulp_shift.simps round_half_even_def dec.simps digit_char_def Let_def printf_d_def
    replicate_unfold

lemma fmt_size_boundaries:
  assumes "human g \<noteq> 0"
  shows "fmt_size g 1024 = ''   1.0K''"
    and "fmt_size g 1023 = ''   1023''"
    and "fmt_size (g\<lparr>human := 0\<rparr>) 1023 = ''   1023''"
    and "fmt_size g 1073741824 = ''   1.0G''"
  using assms by (simp_all add: fmt_eval)

lemma fmt_size_below_kb:
  assumes "human g \<noteq> 0" and "sint sz < 1024"
  shows "fmt_size g sz = fmt_size (g\<lparr>human := 0\<rparr>) sz"
    and "fmt_size g sz = snprintf 32 (rjust 7 (printf_d (sint sz)))"
  using assms by (simp_all add: fmt_size_def ONE_GB_def ONE_MB_def ONE_KB_def)

lemma fmt_size_scaled:
  assumes h: "human g \<noteq> 0" and lo: "d \<le> sint sz"
    and sel: "(d = 2 ^ 30 \<and> u = CHR ''G'') \<or> (d = 2 ^ 20 \<and> u = CHR ''M'' \<and> sint sz < 2 ^ 30) \<or>
              (d = 2 ^ 10 \<and> u = CHR ''K'' \<and> sint sz < 2 ^ 20)"
  shows "\<exists>ip f. f < 10 \<and> fmt_size g sz = rjust 6 (dec ip @ ''.'' @ dec f) @ [u] \<and>
           2 * \<bar>int (10 * ip + f) * d - 10 * int (double_of_long (nat (sint sz)))\<bar> \<le> d"
proof -
  have d: "1024 \<le> nat d" "int (nat d) = d"
    using sel by auto
  have n: "0 < nat (sint sz)" "nat (sint sz) < 2 ^ 63"
    using lo sel sint_lt [of sz] by auto
  have "fmt_size g sz = snprintf 32 (rjust 6 (printf_1f (double_of_long (nat (sint sz))) (nat d)) @ [u])"
    using h lo sel by (auto simp: fmt_size_def ONE_GB_def ONE_MB_def ONE_KB_def)
  then show ?thesis
    using scaled_field [OF d(1) n, of u] d(2) by simp
qed

text \<open>
  Claim C4. With human-readable sizes on, \<^verbatim>\<open>fmt_size\<close> scales with the binary thresholds
  \<^verbatim>\<open>2^10\<close>, \<^verbatim>\<open>2^20\<close>, \<^verbatim>\<open>2^30\<close>, compared with \<^verbatim>\<open>>=\<close>: 1024 bytes print as \<^verbatim>\<open>1.0K\<close>, 1023
  bytes as the plain count (the same text as with the option off), 1073741824 bytes as
  \<^verbatim>\<open>1.0G\<close>, each right-justified in the 7-character field. Below 1024 the field is the plain
  rendering; from \<^verbatim>\<open>2^30\<close> on it is a number with one decimal digit followed by \<^verbatim>\<open>G\<close>, from
  \<^verbatim>\<open>2^20\<close> to below \<^verbatim>\<open>2^30\<close> followed by \<^verbatim>\<open>M\<close>, from \<^verbatim>\<open>2^10\<close> to below \<^verbatim>\<open>2^20\<close> followed by
  \<^verbatim>\<open>K\<close>, and the printed number is within half a unit of its last digit of the size
  divided by the threshold (the size as converted to double, which is the size itself
  below \<^verbatim>\<open>2^53\<close>).
\<close>

theorem fmt_size_human_readable:
  "human g \<noteq> 0 \<longrightarrow>
     fmt_size g 1024 = ''   1.0K'' \<and>
     fmt_size g 1023 = ''   1023'' \<and>
     fmt_size g 1023 = fmt_size (g\<lparr>human := 0\<rparr>) 1023 \<and>
     fmt_size g 1073741824 = ''   1.0G'' \<and>
     (sint sz < 2 ^ 10 \<longrightarrow> fmt_size g sz = fmt_size (g\<lparr>human := 0\<rparr>) sz) \<and>
     (2 ^ 30 \<le> sint sz \<longrightarrow>
        (\<exists>ip f. f < 10 \<and> fmt_size g sz = rjust 6 (dec ip @ ''.'' @ dec f) @ ''G'' \<and>
           2 * \<bar>int (10 * ip + f) * 2 ^ 30 - 10 * int (double_of_long (nat (sint sz)))\<bar> \<le> 2 ^ 30)) \<and>
     (2 ^ 20 \<le> sint sz \<and> sint sz < 2 ^ 30 \<longrightarrow>
        (\<exists>ip f. f < 10 \<and> fmt_size g sz = rjust 6 (dec ip @ ''.'' @ dec f) @ ''M'' \<and>
           2 * \<bar>int (10 * ip + f) * 2 ^ 20 - 10 * int (double_of_long (nat (sint sz)))\<bar> \<le> 2 ^ 20)) \<and>
     (2 ^ 10 \<le> sint sz \<and> sint sz < 2 ^ 20 \<longrightarrow>
        (\<exists>ip f. f < 10 \<and> fmt_size g sz = rjust 6 (dec ip @ ''.'' @ dec f) @ ''K'' \<and>
           2 * \<bar>int (10 * ip + f) * 2 ^ 10 - 10 * int (double_of_long (nat (sint sz)))\<bar> \<le> 2 ^ 10)) \<and>
     (sint sz < 2 ^ 53 \<longrightarrow> double_of_long (nat (sint sz)) = nat (sint sz))"
proof (intro impI conjI)
  assume h: "human g \<noteq> 0"
  show "fmt_size g 1024 = ''   1.0K''"
    using fmt_size_boundaries(1) [OF h] .
  show "fmt_size g 1023 = ''   1023''"
    using fmt_size_boundaries(2) [OF h] .
  show "fmt_size g 1023 = fmt_size (g\<lparr>human := 0\<rparr>) 1023"
    using fmt_size_boundaries(2,3) [OF h] by simp
  show "fmt_size g 1073741824 = ''   1.0G''"
    using fmt_size_boundaries(4) [OF h] .
  show "fmt_size g sz = fmt_size (g\<lparr>human := 0\<rparr>) sz" if "sint sz < 2 ^ 10"
    using fmt_size_below_kb(1) [OF h, of sz] that by simp
  show "\<exists>ip f. f < 10 \<and> fmt_size g sz = rjust 6 (dec ip @ ''.'' @ dec f) @ ''G'' \<and>
      2 * \<bar>int (10 * ip + f) * 2 ^ 30 - 10 * int (double_of_long (nat (sint sz)))\<bar> \<le> 2 ^ 30"
    if "2 ^ 30 \<le> sint sz"
    using fmt_size_scaled [OF h, of "2 ^ 30" sz "CHR ''G''"] that by simp
  show "\<exists>ip f. f < 10 \<and> fmt_size g sz = rjust 6 (dec ip @ ''.'' @ dec f) @ ''M'' \<and>
      2 * \<bar>int (10 * ip + f) * 2 ^ 20 - 10 * int (double_of_long (nat (sint sz)))\<bar> \<le> 2 ^ 20"
    if "2 ^ 20 \<le> sint sz \<and> sint sz < 2 ^ 30"
    using fmt_size_scaled [OF h, of "2 ^ 20" sz "CHR ''M''"] that by simp
  show "\<exists>ip f. f < 10 \<and> fmt_size g sz = rjust 6 (dec ip @ ''.'' @ dec f) @ ''K'' \<and>
      2 * \<bar>int (10 * ip + f) * 2 ^ 10 - 10 * int (double_of_long (nat (sint sz)))\<bar> \<le> 2 ^ 10"
    if "2 ^ 10 \<le> sint sz \<and> sint sz < 2 ^ 20"
    using fmt_size_scaled [OF h, of "2 ^ 10" sz "CHR ''K''"] that by simp
  show "double_of_long (nat (sint sz)) = nat (sint sz)" if "sint sz < 2 ^ 53"
    using that by (intro double_of_long_exact) simp
qed

theorem fmt_size_human_readable_witness:
  "fmt_size (g_args\<lparr>human := 1\<rparr>) 1024 = ''   1.0K'' \<and>
   fmt_size (g_args\<lparr>human := 1\<rparr>) 1023 = fmt_size g_args 1023 \<and>
   fmt_size (g_args\<lparr>human := 1\<rparr>) 1073741824 = ''   1.0G'' \<and>
   fmt_size (g_args\<lparr>human := 1\<rparr>) 1048575 = ''1024.0K'' \<and>
   fmt_size (g_args\<lparr>human := 1\<rparr>) 1048576 = ''   1.0M'' \<and>
   fmt_size (g_args\<lparr>human := 1\<rparr>) 1073741823 = ''1024.0M'' \<and>
   fmt_size (g_args\<lparr>human := 1\<rparr>) 1610612736 = ''   1.5G''"
proof -
  have h: "human (g_args\<lparr>human := 1\<rparr>) \<noteq> 0"
    by simp
  have z: "g_args\<lparr>human := 1\<rparr>\<lparr>human := 0\<rparr> = g_args"
    by (simp add: g_args_def)
  have b: "fmt_size (g_args\<lparr>human := 1\<rparr>) 1024 = ''   1.0K''"
    "fmt_size (g_args\<lparr>human := 1\<rparr>) 1023 = ''   1023''"
    "fmt_size (g_args\<lparr>human := 1\<rparr>) 1073741824 = ''   1.0G''"
    using fmt_size_human_readable [of "g_args\<lparr>human := 1\<rparr>" 0] h by blast+
  have e: "fmt_size (g_args\<lparr>human := 1\<rparr>) 1048575 = ''1024.0K''"
    "fmt_size (g_args\<lparr>human := 1\<rparr>) 1048576 = ''   1.0M''"
    "fmt_size (g_args\<lparr>human := 1\<rparr>) 1073741823 = ''1024.0M''"
    "fmt_size (g_args\<lparr>human := 1\<rparr>) 1610612736 = ''   1.5G''"
    "fmt_size g_args 1023 = ''   1023''"
    by (simp_all add: fmt_eval g_args_def)
  show ?thesis
    using b e by simp
qed

text \<open>
  Claim C9. With human-readable sizes off, the size field of a non-negative byte count,
  read back by skipping the padding and parsing the decimal digits, is the byte count.
\<close>

theorem fmt_size_roundtrip:
  "human g = 0 \<Longrightarrow> 0 \<le> sint sz \<Longrightarrow> parse_printed_digits (fmt_size g sz) = Some (nat (sint sz))"
  by (simp add: fmt_size_plain parse_rjust_dec)

theorem fmt_size_roundtrip_witness:
  "human g_args = 0 \<and> (0::int) \<le> sint (123456789 :: 64 word) \<and>
   parse_printed_digits (fmt_size g_args 123456789) = Some 123456789 \<and>
   fmt_size g_args 123456789 = ''123456789'' \<and>
   parse_printed_digits (fmt_size g_args 42) = Some 42 \<and>
   fmt_size g_args 42 = ''     42''"
proof -
  have h: "human g_args = 0"
    by (simp add: g_args_def)
  have p: "(0::int) \<le> sint (123456789 :: 64 word)" "(0::int) \<le> sint (42 :: 64 word)"
    by simp_all
  have r: "parse_printed_digits (fmt_size g_args 123456789) = Some 123456789"
    "parse_printed_digits (fmt_size g_args 42) = Some 42"
    using fmt_size_roundtrip [OF h p(1)] fmt_size_roundtrip [OF h p(2)] by simp_all
  have e: "fmt_size g_args 123456789 = ''123456789''" "fmt_size g_args 42 = ''     42''"
    by (simp_all add: fmt_eval g_args_def)
  show ?thesis
    using h p r e by simp
qed

section \<open>Properties of the sorter\<close>

lemma of_char_zero: "(of_char c = (0::nat)) = (c = CHR 0x00)"
proof -
  have "(of_char c = (of_char (CHR 0x00) :: nat)) = (c = CHR 0x00)"
    by (rule of_char_eq_iff)
  then show ?thesis by simp
qed

lemma tolower_zero: "(tolower c = 0) = (c = CHR 0x00)"
  using of_char_zero [of c] by (auto simp: tolower_def Let_def)

lemma tolower_nonneg: "0 \<le> tolower c"
  by (simp add: tolower_def Let_def)

lemma name_key_Nil: "name_key [] = []"
  by (simp add: name_key_def)

lemma name_key_Cons: "name_key (x # xs) = (if x = CHR 0x00 then [] else tolower x # name_key xs)"
  by (simp add: name_key_def)

lemma tolower_NUL: "tolower CHR 0x00 = 0"
  by (simp add: tolower_zero)

lemma strcasecmp_Nil2: "(strcasecmp a [] \<le> 0) = (name_key a = [])"
proof (cases a)
  case Nil
  then show ?thesis by (simp add: name_key_Nil char_at_def tolower_NUL)
next
  case (Cons x a')
  show ?thesis
    using Cons tolower_zero [of x] tolower_nonneg [of x]
    by (auto simp: name_key_Cons char_at_def Let_def tolower_NUL)
qed

lemma strcasecmp_key: "(strcasecmp a b \<le> 0) = (name_key a \<le> name_key b)"
proof (induction a arbitrary: b)
  case Nil
  show ?case
    using tolower_nonneg [of "char_at b 0"] by (simp add: name_key_Nil)
next
  case (Cons x a)
  show ?case
  proof (cases b)
    case Nil
    then show ?thesis
      using strcasecmp_Nil2 [of "x # a"] by (simp add: name_key_Nil del: strcasecmp.simps)
  next
    case (Cons y b')
    have c: "char_at b 0 = y" "tl b = b'"
      using Cons by (simp_all add: char_at_def)
    show ?thesis
    proof (cases "x = CHR 0x00")
      case True
      then have "tolower x = 0" by (simp add: tolower_zero)
      then show ?thesis
        using True c tolower_nonneg [of y] by (simp add: name_key_Cons Let_def)
    next
      case False
      then have x: "tolower x \<noteq> 0" by (simp add: tolower_zero)
      show ?thesis
      proof (cases "y = CHR 0x00")
        case True
        then have "tolower y = 0" by (simp add: tolower_zero)
        then show ?thesis
          using True False c x Cons tolower_nonneg [of x]
          by (simp add: name_key_Cons Let_def)
      next
        case y: False
        show ?thesis
          using False y c Cons Cons.IH [of b']
          by (auto simp: name_key_Cons Let_def)
      qed
    qed
  qed
qed

lemma strcasecmp_eq_key: "(strcasecmp a b = 0) = (name_key a = name_key b)"
proof (induction a arbitrary: b)
  case Nil
  show ?case
  proof (cases b)
    case Nil
    then show ?thesis by (simp add: name_key_Nil char_at_def tolower_NUL)
  next
    case (Cons y b')
    then show ?thesis
      using tolower_zero [of y] by (auto simp: name_key_Nil name_key_Cons char_at_def)
  qed
next
  case (Cons x a)
  show ?case
  proof (cases b)
    case Nil
    then show ?thesis
      using tolower_zero [of x]
      by (auto simp: name_key_Nil name_key_Cons char_at_def Let_def tolower_NUL)
  next
    case (Cons y b')
    have c: "char_at b 0 = y" "tl b = b'"
      using Cons by (simp_all add: char_at_def)
    show ?thesis
    proof (cases "x = CHR 0x00")
      case True
      then show ?thesis
        using c Cons tolower_zero [of y] by (auto simp: name_key_Cons Let_def tolower_NUL)
    next
      case False
      then have x: "tolower x \<noteq> 0" by (simp add: tolower_zero)
      show ?thesis
      proof (cases "y = CHR 0x00")
        case True
        then show ?thesis
          using False c x Cons by (simp add: name_key_Cons Let_def tolower_NUL)
      next
        case y: False
        show ?thesis
          using False y c Cons Cons.IH [of b']
          by (auto simp: name_key_Cons Let_def)
      qed
    qed
  qed
qed

lemma cmp_le_iff: "(cmp a b \<le> 0) = (name_key a \<le> name_key b)"
  by (simp add: cmp_def strcasecmp_key del: strcasecmp.simps)

lemma cmp_eq_iff: "(cmp a b = 0) = (name_key a = name_key b)"
  by (simp add: cmp_def strcasecmp_eq_key del: strcasecmp.simps)

lemma sorted_wrt_cmp: "sorted_wrt (\<lambda>a b. cmp a b \<le> 0) xs = sorted (map name_key xs)"
  by (simp add: cmp_le_iff sorted_map)

lemma mset_msort_merge: "mset (msort_merge c xs ys) = mset xs + mset ys"
  by (induction c xs ys rule: msort_merge.induct) auto

lemma set_msort_merge: "set (msort_merge c xs ys) = set xs \<union> set ys"
  by (induction c xs ys rule: msort_merge.induct) auto

lemma sorted_msort_merge:
  assumes le: "\<And>a b. (c a b \<le> 0) = (name_key a \<le> name_key b)"
  shows "sorted (map name_key xs) \<Longrightarrow> sorted (map name_key ys) \<Longrightarrow>
     sorted (map name_key (msort_merge c xs ys))"
  using le
proof (induction c xs ys rule: msort_merge.induct)
  case (1 c b2)
  then show ?case by simp
next
  case (2 c x b1)
  then show ?case by simp
next
  case (3 c x b1 y b2)
  show ?case
  proof (cases "c x y \<le> 0")
    case True
    then have xy: "name_key x \<le> name_key y"
      by (simp add: "3.prems"(3))
    have "\<forall>z \<in> set (msort_merge c b1 (y # b2)). name_key x \<le> name_key z"
      using "3.prems"(1,2) xy by (auto simp: set_msort_merge)
    moreover have "sorted (map name_key (msort_merge c b1 (y # b2)))"
      using "3.IH"(1) [OF True _ "3.prems"(2,3)] "3.prems"(1) by simp
    ultimately show ?thesis
      using True by simp
  next
    case False
    then have yx: "name_key y \<le> name_key x"
      using "3.prems"(3) [of x y] by simp
    have "\<forall>z \<in> set (msort_merge c (x # b1) b2). name_key y \<le> name_key z"
      using "3.prems"(1,2) yx by (auto simp: set_msort_merge)
    moreover have "sorted (map name_key (msort_merge c (x # b1) b2))"
      using "3.IH"(2) [OF False "3.prems"(1) _ "3.prems"(3)] "3.prems"(2) by simp
    ultimately show ?thesis
      using False by simp
  qed
qed

lemma mset_msort_with_tmp: "mset (msort_with_tmp c b) = mset b"
proof (induction c b rule: msort_with_tmp.induct)
  case (1 c b)
  show ?case
  proof (cases "length b \<le> 1")
    case True
    then show ?thesis by (subst msort_with_tmp.simps) simp
  next
    case False
    have "mset (take (length b div 2) b) + mset (drop (length b div 2) b) = mset b"
      by (metis append_take_drop_id mset_append)
    then show ?thesis
      using False "1.IH" by (subst msort_with_tmp.simps) (simp add: Let_def mset_msort_merge)
  qed
qed

lemma sorted_msort_with_tmp:
  assumes le: "\<And>a b. (c a b \<le> 0) = (name_key a \<le> name_key b)"
  shows "sorted (map name_key (msort_with_tmp c b))"
  using le
proof (induction c b rule: msort_with_tmp.induct)
  case (1 c b)
  show ?case
  proof (cases "length b \<le> 1")
    case True
    then have "b = [] \<or> (\<exists>x. b = [x])"
      by (cases b) auto
    then show ?thesis by (subst msort_with_tmp.simps) auto
  next
    case False
    have "sorted (map name_key (msort_with_tmp c (take (length b div 2) b)))"
      using "1.IH"(1) [OF False refl "1.prems"] .
    moreover have "sorted (map name_key (msort_with_tmp c (drop (length b div 2) b)))"
      using "1.IH"(2) [OF False refl "1.prems"] .
    ultimately show ?thesis
      using False sorted_msort_merge [OF "1.prems"]
      by (subst msort_with_tmp.simps) (simp add: Let_def)
  qed
qed

text \<open>Merging two runs that are already in order one after the other joins them.\<close>

lemma msort_merge_in_order:
  "\<forall>x \<in> set xs. \<forall>y \<in> set ys. c x y \<le> 0 \<Longrightarrow> msort_merge c xs ys = xs @ ys"
  by (induction c xs ys rule: msort_merge.induct) auto

lemma msort_with_tmp_sorted_id:
  assumes le: "\<And>a b. (c a b \<le> 0) = (name_key a \<le> name_key b)"
  shows "sorted (map name_key b) \<Longrightarrow> msort_with_tmp c b = b"
  using le
proof (induction c b rule: msort_with_tmp.induct)
  case (1 c b)
  show ?case
  proof (cases "length b \<le> 1")
    case True
    then show ?thesis by (subst msort_with_tmp.simps) simp
  next
    case False
    let ?n = "length b div 2"
    have s: "sorted (map name_key (take ?n b) @ map name_key (drop ?n b))"
      using "1.prems"(1) by (metis append_take_drop_id map_append)
    then have s1: "sorted (map name_key (take ?n b))" and s2: "sorted (map name_key (drop ?n b))"
      by (simp_all add: sorted_append)
    have le: "\<forall>x \<in> set (take ?n b). \<forall>y \<in> set (drop ?n b). c x y \<le> 0"
      using s by (auto simp: sorted_append "1.prems"(2))
    have "msort_with_tmp c b = msort_merge c (take ?n b) (drop ?n b)"
      using False "1.IH"(1) [OF False refl s1 "1.prems"(2)] "1.IH"(2) [OF False refl s2 "1.prems"(2)]
      by (subst msort_with_tmp.simps) (simp add: Let_def)
    then show ?thesis
      using msort_merge_in_order [OF le] by simp
  qed
qed

lemmas sort_eval = sort_ls_def qsort_def msort_with_tmp.simps cmp_def tolower_def char_at_def

text \<open>
  Claim C8. For every name sequence the output of the sorter is a rearrangement of the
  input that is non-decreasing under \<^verbatim>\<open>cmp\<close>, the case-insensitive byte-wise comparison, and
  sorting the output again gives the same sequence.
\<close>

theorem sort_ls_sorted:
  "sorted_wrt (\<lambda>a b. cmp a b \<le> 0) (sort_ls names) \<and>
   mset (sort_ls names) = mset names \<and>
   sort_ls (sort_ls names) = sort_ls names"
proof (intro conjI)
  show "sorted_wrt (\<lambda>a b. cmp a b \<le> 0) (sort_ls names)"
    by (simp add: sort_ls_def qsort_def sorted_wrt_cmp sorted_msort_with_tmp [OF cmp_le_iff])
  show "mset (sort_ls names) = mset names"
    by (simp add: sort_ls_def qsort_def mset_msort_with_tmp)
  show "sort_ls (sort_ls names) = sort_ls names"
    by (simp add: sort_ls_def qsort_def msort_with_tmp_sorted_id [OF cmp_le_iff]
        sorted_msort_with_tmp [OF cmp_le_iff])
qed

theorem sort_ls_sorted_witness:
  "sort_ls [''b'', ''C'', ''a'', ''B'', ''A''] = [''a'', ''A'', ''b'', ''B'', ''C''] \<and>
   sort_ls [''a'', ''A'', ''b'', ''B'', ''C''] = [''a'', ''A'', ''b'', ''B'', ''C''] \<and>
   sort_ls [''A'', ''a''] = [''A'', ''a''] \<and>
   sort_ls [''a'', ''A''] = [''a'', ''A''] \<and>
   sorted_wrt (\<lambda>a b. cmp a b \<le> 0) (sort_ls [''b'', ''C'', ''a'', ''B'', ''A''])"
proof -
  have e: "sort_ls [''b'', ''C'', ''a'', ''B'', ''A''] = [''a'', ''A'', ''b'', ''B'', ''C'']"
    "sort_ls [''A'', ''a''] = [''A'', ''a'']" "sort_ls [''a'', ''A''] = [''a'', ''A'']"
    by (simp_all add: sort_eval)
  have i: "sort_ls [''a'', ''A'', ''b'', ''B'', ''C''] = [''a'', ''A'', ''b'', ''B'', ''C'']"
    using sort_ls_sorted [of "[''b'', ''C'', ''a'', ''B'', ''A'']"] e(1) by simp
  have s: "sorted_wrt (\<lambda>a b. cmp a b \<le> 0) (sort_ls [''b'', ''C'', ''a'', ''B'', ''A''])"
    using sort_ls_sorted [of "[''b'', ''C'', ''a'', ''B'', ''A'']"] by blast
  show ?thesis
    using e i s by blast
qed

section \<open>Properties of the reporter\<close>

lemmas sys_defs = emit_def emit_err_def log_call_def answer_def sys_stat_def sys_lstat_def sys_readlink_def
  sys_opendir_def sys_chdir_def sys_getcwd_def alloc_def ENOMEM_def EFAULT_def nl_def usage_def
  MAXLINE_def err_text_def err_sys_def snprintf_def

lemmas mode_defs = S_IFMT_def S_IFSOCK_def S_IFLNK_def S_IFBLK_def S_IFDIR_def S_IFCHR_def S_IFIFO_def
  S_ISDIR_def S_ISLNK_def S_ISCHR_def S_ISBLK_def S_ISFIFO_def S_ISSOCK_def
  S_IRUSR_def S_IWUSR_def S_IXUSR_def S_IRGRP_def S_IWGRP_def S_IXGRP_def S_IROTH_def S_IWOTH_def
  S_IXOTH_def perm_bit_def fmt_mode_def

lemmas prog_defs = isdir_def classify_def targets_def get_stat_def fmt_owner_def fmt_group_def
  fmt_time_def fmt_name_def pr_line_def listdir_def do_dirs_def main_def parse_args_def g_args_def
  DEFAULT_FILES_def skip_def char_at_def ljust_def

lemmas example_defs = reg_file_def directory_def symlink_def ex_lstat_def ex_stat_def ex_readlink_def
  big_names_def ex_readdir_def ex_chdir_def ex_strerror_def os_example_def w_start_def


lemma emit_err_emit_err: "emit_err b (emit_err a w) = emit_err (a @ b) w"
  by (simp add: emit_err_def)

lemma emit_err_Nil: "emit_err [] w = w"
  by (simp add: emit_err_def)

lemma getopt_loop_unrecognised:
  assumes "\<forall>r \<in> set good. fst r = of_char CHR ''a'' \<or> fst r = of_char CHR ''A'' \<or>
             fst r = of_char CHR ''h'' \<or> fst r = of_char CHR ''L''"
  shows "fst (fst (getopt_loop (good @ (of_char CHR ''?'', diag) # rest) g w)) = - 1 \<and>
         snd (getopt_loop (good @ (of_char CHR ''?'', diag) # rest) g w) =
           emit_err (concat (map snd good) @ diag) w"
  using assms
proof (induction good arbitrary: g w)
  case Nil
  show ?case by (simp add: Let_def)
next
  case (Cons r good)
  obtain opt d where r: "r = (opt, d)" by (cases r)
  have o: "opt = of_char CHR ''a'' \<or> opt = of_char CHR ''A'' \<or> opt = of_char CHR ''h'' \<or>
      opt = of_char CHR ''L''"
    using Cons.prems r by simp
  have ih: "fst (fst (getopt_loop (good @ (of_char CHR ''?'', diag) # rest) g' (emit_err d w))) = - 1 \<and>
      snd (getopt_loop (good @ (of_char CHR ''?'', diag) # rest) g' (emit_err d w)) =
        emit_err (d @ concat (map snd good) @ diag) w" for g'
    using Cons.IH [of g' "emit_err d w"] Cons.prems by (simp add: emit_err_emit_err)
  show ?case
    unfolding r using o ih by (auto simp: Let_def)
qed

text \<open>
  Claim C7. When \<^verbatim>\<open>getopt_long\<close> meets a flag it does not recognise, after any number of
  recognised ones, it has written its own diagnostic to standard error and returns
  \<^verbatim>\<open>'?'\<close>; \<^verbatim>\<open>main\<close> then writes the usage text, given here in full, to standard output and
  returns 0. Nothing else of the process state changes: no system call, no allocation, no
  listing output and no message of the program's own.
\<close>

theorem main_unrecognised_flag:
  "\<forall>r \<in> set good. fst r = of_char CHR ''a'' \<or> fst r = of_char CHR ''A'' \<or>
     fst r = of_char CHR ''h'' \<or> fst r = of_char CHR ''L'' \<Longrightarrow>
   main sys (good @ (of_char CHR ''?'', diag) # rest) operands w =
     (Exit 0,
      w\<lparr>w_stdout := w_stdout w @
          ''Usage: ls -[aAhL] [FILE]...'' @ [CHR 0x0A] @
          ''List information about the FILEs (the current directory by default).'' @ [CHR 0x0A] @
          ''Sort entries alphabetically'' @ [CHR 0x0A, CHR 0x0A] @
          ''-a, --all               do not ignore entries starting with .'' @ [CHR 0x0A] @
          ''-A, --almost-all        do not list implied . and ..'' @ [CHR 0x0A] @
          ''-h, --human-readable    print sizes in human readable format'' @ [CHR 0x0A] @
          ''-L, --dereference       follow symbolic link when showing information'' @ [CHR 0x0A] @
          ''--help                  show this message'' @ [CHR 0x0A],
        w_stderr := w_stderr w @ concat (map snd good) @ diag\<rparr>)"
proof -
  assume a: "\<forall>r \<in> set good. fst r = of_char CHR ''a'' \<or> fst r = of_char CHR ''A'' \<or>
     fst r = of_char CHR ''h'' \<or> fst r = of_char CHR ''L''"
  let ?rs = "good @ (of_char CHR ''?'', diag) # rest"
  note u = getopt_loop_unrecognised [OF a, of diag rest g_args w]
  obtain r g w1 where p: "parse_args ?rs operands g_args w = ((r, g), w1)"
    by (cases "parse_args ?rs operands g_args w") auto
  have "fst (fst (parse_args ?rs operands g_args w)) \<noteq> 0"
    using u parse_args_ok_iff [of ?rs operands g_args w] by simp
  then have r: "r \<noteq> 0"
    using p by simp
  have w1: "w1 = emit_err (concat (map snd good) @ diag) w"
    using u p parse_args_stderr [of ?rs operands g_args w] by simp
  show ?thesis
    using p r w1 by (simp add: main_def usage_def usage_text_def nl_def emit_def emit_err_def)
qed

theorem main_unrecognised_flag_witness:
  "main os_example
     [(of_char CHR ''a'', []),
      (of_char CHR ''?'', ''ls: invalid option -- '' @ [CHR 0x27, CHR ''z'', CHR 0x27, CHR 0x0A]),
      (of_char CHR ''L'', [])]
     [''docs''] w_start =
     (Exit 0,
      w_start\<lparr>w_stdout :=
          ''Usage: ls -[aAhL] [FILE]...'' @ [CHR 0x0A] @
          ''List information about the FILEs (the current directory by default).'' @ [CHR 0x0A] @
          ''Sort entries alphabetically'' @ [CHR 0x0A, CHR 0x0A] @
          ''-a, --all               do not ignore entries starting with .'' @ [CHR 0x0A] @
          ''-A, --almost-all        do not list implied . and ..'' @ [CHR 0x0A] @
          ''-h, --human-readable    print sizes in human readable format'' @ [CHR 0x0A] @
          ''-L, --dereference       follow symbolic link when showing information'' @ [CHR 0x0A] @
          ''--help                  show this message'' @ [CHR 0x0A],
        w_stderr := ''ls: invalid option -- '' @ [CHR 0x27, CHR ''z'', CHR 0x27, CHR 0x0A]\<rparr>)"
  using main_unrecognised_flag [of "[(of_char CHR ''a'', [])]" os_example
      "''ls: invalid option -- '' @ [CHR 0x27, CHR ''z'', CHR 0x27, CHR 0x0A]"
      "[(of_char CHR ''L'', [])]" "[''docs'']" w_start]
  by (simp add: w_start_def)

subsection \<open>Classification\<close>

lemma isdir_fst: 
  "fst (isdir sys t w) =
     (case os_stat sys (w_cwd w) t of Inl e \<Rightarrow> 0 | Inr buf \<Rightarrow> if S_ISDIR (st_mode buf) then 1 else 0)"
  by (simp add: isdir_def sys_stat_def answer_def log_call_def split: sum.splits)

lemma isdir_snd:
  "w_trace (snd (isdir sys t w)) = w_trace w @ [Stat t]"
  "w_cwd (snd (isdir sys t w)) = w_cwd w"
  "w_stdout (snd (isdir sys t w)) = w_stdout w"
  "w_stderr (snd (isdir sys t w)) = w_stderr w"
  "w_allocs (snd (isdir sys t w)) = w_allocs w"
  by (simp_all add: isdir_def sys_stat_def answer_def log_call_def split: sum.splits)

lemma isdir_cwd_cong: "w_cwd w1 = w_cwd w \<Longrightarrow> fst (isdir sys t w1) = fst (isdir sys t w)"
  by (simp add: isdir_fst)

lemma classify_loop_result:
  "fst (classify_loop sys ts dirs fs w) =
     (dirs @ filter (\<lambda>t. fst (isdir sys t w) \<noteq> 0) ts, fs @ filter (\<lambda>t. fst (isdir sys t w) = 0) ts)"
proof (induction ts arbitrary: dirs fs w)
  case Nil
  show ?case by simp
next
  case (Cons t ts)
  obtain r w1 where i: "isdir sys t w = (r, w1)" by (cases "isdir sys t w")
  have "w_cwd w1 = w_cwd w"
    using isdir_snd(2) [of sys t w] i by simp
  then have c: "fst (isdir sys u w1) = fst (isdir sys u w)" for u
    by (rule isdir_cwd_cong)
  show ?case
    using i Cons.IH [of _ _ w1] by (simp add: c)
qed

lemma classify_loop_world_conj:
  "w_trace (snd (classify_loop sys ts dirs fs w)) = w_trace w @ map Stat ts \<and>
   w_cwd (snd (classify_loop sys ts dirs fs w)) = w_cwd w \<and>
   w_stdout (snd (classify_loop sys ts dirs fs w)) = w_stdout w \<and>
   w_stderr (snd (classify_loop sys ts dirs fs w)) = w_stderr w \<and>
   w_allocs (snd (classify_loop sys ts dirs fs w)) = w_allocs w"
proof (induction ts arbitrary: dirs fs w)
  case Nil
  show ?case by simp
next
  case (Cons t ts)
  obtain r w1 where i: "isdir sys t w = (r, w1)" by (cases "isdir sys t w")
  have w1: "w_trace w1 = w_trace w @ [Stat t]" "w_cwd w1 = w_cwd w" "w_stdout w1 = w_stdout w"
    "w_stderr w1 = w_stderr w" "w_allocs w1 = w_allocs w"
    using isdir_snd [of sys t w] i by simp_all
  show ?case
    using i w1 Cons.IH [of _ _ w1] by simp
qed

lemmas classify_loop_world =
  classify_loop_world_conj [THEN conjunct1]
  classify_loop_world_conj [THEN conjunct2, THEN conjunct1]
  classify_loop_world_conj [THEN conjunct2, THEN conjunct2, THEN conjunct1]
  classify_loop_world_conj [THEN conjunct2, THEN conjunct2, THEN conjunct2, THEN conjunct1]
  classify_loop_world_conj [THEN conjunct2, THEN conjunct2, THEN conjunct2, THEN conjunct2]

text \<open>
  Claim C5. \<^verbatim>\<open>classify\<close> splits the targets into the directories and the plain files: each
  part is the subsequence of the targets that the directory test selects or rejects, in
  input order, so every target is in exactly one of them and the two counts add up to the
  number of targets. A target whose \<^verbatim>\<open>stat\<close> fails is a plain file. Classification always
  returns and writes nothing to either stream.
\<close>

theorem classify_partition:
  "classify sys g w = ((dirs, fs), w') \<Longrightarrow>
     dirs = filter (\<lambda>t. fst (isdir sys t w) \<noteq> 0) (targets g) \<and>
     fs = filter (\<lambda>t. fst (isdir sys t w) = 0) (targets g) \<and>
     subseq dirs (targets g) \<and> subseq fs (targets g) \<and>
     length dirs + length fs = length (targets g) \<and>
     mset dirs + mset fs = mset (targets g) \<and>
     set dirs \<inter> set fs = {} \<and>
     (\<forall>t \<in> set (targets g). (\<exists>e. fst (sys_stat sys t w) = Inl e) \<longrightarrow> t \<in> set fs \<and> t \<notin> set dirs) \<and>
     w_stdout w' = w_stdout w \<and> w_stderr w' = w_stderr w \<and> w_cwd w' = w_cwd w"
proof -
  assume c: "classify sys g w = ((dirs, fs), w')"
  let ?P = "\<lambda>t. fst (isdir sys t w) \<noteq> 0"
  have r: "fst (classify_loop sys (targets g) [] [] w) = (dirs, fs)"
    and w': "snd (classify_loop sys (targets g) [] [] w) = w'"
    using c by (simp_all add: classify_def)
  have d: "dirs = filter ?P (targets g)" and f: "fs = filter (\<lambda>t. \<not> ?P t) (targets g)"
    using r by (simp_all add: classify_loop_result)
  have len: "length dirs + length fs = length (targets g)"
    unfolding d f by (rule sum_length_filter_compl)
  have ms: "mset dirs + mset fs = mset (targets g)"
    unfolding d f by simp
  have dis: "set dirs \<inter> set fs = {}"
    unfolding d f by auto
  have fail: "\<forall>t \<in> set (targets g). (\<exists>e. fst (sys_stat sys t w) = Inl e) \<longrightarrow> t \<in> set fs \<and> t \<notin> set dirs"
    unfolding d f
    by (auto simp: isdir_fst sys_stat_def answer_def log_call_def split: sum.splits)
  have wd: "w_stdout w' = w_stdout w \<and> w_stderr w' = w_stderr w \<and> w_cwd w' = w_cwd w"
    using classify_loop_world(2,3,4) [of sys "targets g" "[]" "[]" w] w' by simp
  show ?thesis
    using d f len ms dis fail wd by simp
qed

theorem classify_partition_witness:
  "classify os_example (snd (fst (parse_args [] [''notes.txt'', ''docs'', ''nope'', ''link''] g_args w_start))) w_start =
     (([''docs'', ''link''], [''notes.txt'', ''nope'']),
      w_start\<lparr>w_errno := 2,
        w_trace := [Stat ''notes.txt'', Stat ''docs'', Stat ''nope'', Stat ''link'']\<rparr>) \<and>
   fst (sys_stat os_example ''nope'' w_start) = Inl 2 \<and>
   length [''docs'', ''link''] + length [''notes.txt'', ''nope''] =
     length (targets (snd (fst (parse_args [] [''notes.txt'', ''docs'', ''nope'', ''link''] g_args w_start))))"
proof -
  let ?g = "snd (fst (parse_args [] [''notes.txt'', ''docs'', ''nope'', ''link''] g_args w_start))"
  let ?w = "w_start\<lparr>w_errno := 2,
        w_trace := [Stat ''notes.txt'', Stat ''docs'', Stat ''nope'', Stat ''link'']\<rparr>"
  have c: "classify os_example ?g w_start = (([''docs'', ''link''], [''notes.txt'', ''nope'']), ?w)"
    by (simp add: sys_defs mode_defs prog_defs example_defs)
  have s: "fst (sys_stat os_example ''nope'' w_start) = Inl 2"
    by (simp add: sys_defs example_defs)
  have l: "length [''docs'', ''link''] + length [''notes.txt'', ''nope''] = length (targets ?g)"
    using classify_partition [OF c] by blast
  show ?thesis
    using c s l by blast
qed

text \<open>
  Claim C1 on a concrete run. \<^verbatim>\<open>.hidden\<close> is a regular file of the example file system and
  the only target, with no flag given. It is classified (one \<^verbatim>\<open>stat\<close>), then \<^verbatim>\<open>do_files\<close>
  applies \<^verbatim>\<open>skip\<close> to it as it does to directory entries: the target is never looked up for
  display and no line is printed. With \<^verbatim>\<open>-a\<close> the same command prints its line.
\<close>

theorem dot_target_is_filtered:
  "os_lstat os_example ''/home'' ''.hidden'' = Inr (reg_file 12 12) \<and>
   classify os_example (snd (fst (parse_args [] [''.hidden''] g_args w_start))) w_start =
     (([], [''.hidden'']), w_start\<lparr>w_trace := [Stat ''.hidden'']\<rparr>) \<and>
   main os_example [] [''.hidden''] w_start =
     (Exit 0, w_start\<lparr>w_allocs := 3, w_trace := [Stat ''.hidden'', Getcwd]\<rparr>) \<and>
   w_stdout (snd (main os_example [] [''.hidden''] w_start)) = [] \<and>
   w_stdout (snd (main os_example [(of_char CHR ''a'', [])] [''.hidden''] w_start)) =
     ''12     1  -rw-r--r-- ann      staff         12 1970-01-01 00:00 .hidden'' @ nl"
  by (simp add: sys_defs mode_defs prog_defs example_defs fmt_eval sort_eval)

theorem dot_target_is_filtered_witness:
  "fst (main os_example [] [''.hidden''] w_start) = Exit 0 \<and>
   w_stdout (snd (main os_example [] [''.hidden''] w_start)) = [] \<and>
   w_stderr (snd (main os_example [] [''.hidden''] w_start)) = []"
  using dot_target_is_filtered by (simp add: w_start_def)

subsection \<open>Effects of the primitive operations\<close>

lemma emit_fields [simp]:
  "w_trace (emit s w) = w_trace w" "w_cwd (emit s w) = w_cwd w" "w_stderr (emit s w) = w_stderr w"
  "w_errno (emit s w) = w_errno w" "w_allocs (emit s w) = w_allocs w"
  "w_stdout (emit s w) = w_stdout w @ s"
  by (simp_all add: emit_def)

lemma err_sys_fields [simp]:
  "w_trace (err_sys sys m w) = w_trace w" "w_cwd (err_sys sys m w) = w_cwd w"
  "w_stdout (err_sys sys m w) = w_stdout w" "w_errno (err_sys sys m w) = w_errno w"
  "w_allocs (err_sys sys m w) = w_allocs w"
  "w_stderr (err_sys sys m w) = w_stderr w @ err_text sys m (w_errno w)"
  by (simp_all add: err_sys_def)

lemma alloc_fields [simp]:
  "w_trace (snd (alloc sys w)) = w_trace w" "w_cwd (snd (alloc sys w)) = w_cwd w"
  "w_stdout (snd (alloc sys w)) = w_stdout w" "w_stderr (snd (alloc sys w)) = w_stderr w"
  by (simp_all add: alloc_def Let_def)

lemma get_stat_eq:
  "get_stat sys g file w =
     (case os_lookup sys g (w_cwd w) file of
        Inl e \<Rightarrow> (Inl e, w\<lparr>w_trace := w_trace w @ [lookup_call g file], w_errno := e\<rparr>)
      | Inr buf \<Rightarrow> (Inr buf, w\<lparr>w_trace := w_trace w @ [lookup_call g file]\<rparr>))"
  by (simp add: get_stat_def os_lookup_def lookup_call_def sys_stat_def sys_lstat_def answer_def
      log_call_def split: sum.splits)

lemma fmt_owner_fields [simp]:
  "w_trace (snd (fmt_owner sys uid w)) = w_trace w" "w_cwd (snd (fmt_owner sys uid w)) = w_cwd w"
  "w_stdout (snd (fmt_owner sys uid w)) = w_stdout w" "w_stderr (snd (fmt_owner sys uid w)) = w_stderr w"
  "w_allocs (snd (fmt_owner sys uid w)) = w_allocs w"
  by (simp_all add: fmt_owner_def split: prod.splits)

lemma fmt_group_fields [simp]:
  "w_trace (snd (fmt_group sys gid w)) = w_trace w" "w_cwd (snd (fmt_group sys gid w)) = w_cwd w"
  "w_stdout (snd (fmt_group sys gid w)) = w_stdout w" "w_stderr (snd (fmt_group sys gid w)) = w_stderr w"
  "w_allocs (snd (fmt_group sys gid w)) = w_allocs w"
  by (simp_all add: fmt_group_def split: prod.splits)

lemma added_ok_iff:
  "added_ok g w w' = (\<exists>evs. w_trace w' = w_trace w @ evs \<and> list_all (lookup_ok g) evs)"
proof
  assume a: "added_ok g w w'"
  have "take (length (w_trace w)) (w_trace w') @ drop (length (w_trace w)) (w_trace w') = w_trace w'"
    by (rule append_take_drop_id)
  moreover have "take (length (w_trace w)) (w_trace w') = w_trace w"
    using a by (simp add: added_ok_def)
  ultimately have "w_trace w' = w_trace w @ drop (length (w_trace w)) (w_trace w')"
    by (simp del: append_take_drop_id)
  then show "\<exists>evs. w_trace w' = w_trace w @ evs \<and> list_all (lookup_ok g) evs"
    using a by (auto simp: added_ok_def)
next
  assume "\<exists>evs. w_trace w' = w_trace w @ evs \<and> list_all (lookup_ok g) evs"
  then show "added_ok g w w'"
    by (auto simp: added_ok_def)
qed

lemma added_ok_same: "w_trace w' = w_trace w \<Longrightarrow> added_ok g w w'"
  by (simp add: added_ok_def)

lemma added_ok_call: "w_trace w' = w_trace w @ [c] \<Longrightarrow> lookup_ok g c \<Longrightarrow> added_ok g w w'"
  by (simp add: added_ok_def)

lemma added_ok_trans: "added_ok g w w1 \<Longrightarrow> added_ok g w1 w2 \<Longrightarrow> added_ok g w w2"
  unfolding added_ok_iff by auto

lemma fmt_name_effect:
  assumes "fmt_name sys st name w = (r, w')"
  shows "lookups (w_trace w') = lookups (w_trace w)"
    and "w_cwd w' = w_cwd w"
    and "(\<exists>fname. r = Inr fname) \<Longrightarrow> w_stderr w' = w_stderr w"
    and "added_ok g w w'"
proof -
  obtain ok w1 where a: "alloc sys w = (ok, w1)"
    by (cases "alloc sys w")
  have w1: "w_trace w1 = w_trace w" "w_cwd w1 = w_cwd w" "w_stderr w1 = w_stderr w"
    using alloc_fields [of sys w] a by simp_all
  have all: "lookups (w_trace w') = lookups (w_trace w) \<and> w_cwd w' = w_cwd w \<and>
      ((\<exists>fname. r = Inr fname) \<longrightarrow> w_stderr w' = w_stderr w) \<and>
      (w_trace w' = w_trace w \<or> w_trace w' = w_trace w @ [Readlink name])"
  proof (cases "S_ISLNK (st_mode st)")
    case False
    then show ?thesis using assms by (simp add: fmt_name_def)
  next
    case True
    show ?thesis
    proof (cases ok)
      case False
      then show ?thesis
        using assms True a w1 by (auto simp: fmt_name_def)
    next
      case ok: True
      show ?thesis
        using assms True a ok w1
        by (auto simp: fmt_name_def lookups_def sys_readlink_def answer_def log_call_def Let_def
            split: sum.splits)
    qed
  qed
  show "lookups (w_trace w') = lookups (w_trace w)" using all by blast
  show "w_cwd w' = w_cwd w" using all by blast
  show "w_stderr w' = w_stderr w" if "\<exists>fname. r = Inr fname" using all that by blast
  show "added_ok g w w'"
    using all added_ok_same [of w' w g] added_ok_call [of w' w "Readlink name" g] by auto
qed

lemma pr_line_effect:
  assumes "pr_line sys g st name w = (r, w')"
  shows "lookups (w_trace w') = lookups (w_trace w)"
    and "w_cwd w' = w_cwd w"
    and "r = Inr u \<Longrightarrow> w_stderr w' = w_stderr w"
    and "added_ok g' w w'"
proof -
  define w3 where "w3 =
    emit (fmt_mode (st_mode st) @ '' '')
      (emit (ljust 2 (printf_d (sint (ucast (st_nlink st) :: 32 word))) @ '' '')
        (emit (ljust 6 (printf_d (sint (st_ino st))) @ '' '') w))"
  obtain owner w4 where o: "fmt_owner sys (st_uid st) w3 = (owner, w4)"
    by (cases "fmt_owner sys (st_uid st) w3")
  obtain grp w5 where gr: "fmt_group sys (st_gid st) (emit (ljust 8 owner @ '' '') w4) = (grp, w5)"
    by (cases "fmt_group sys (st_gid st) (emit (ljust 8 owner @ '' '') w4)")
  define w7 where "w7 = emit (fmt_size g (st_size st) @ '' '') (emit (ljust 8 grp @ '' '') w5)"
  have w4e: "w4 = snd (fmt_owner sys (st_uid st) w3)"
    using o by simp
  have w4: "w_trace w4 = w_trace w" "w_cwd w4 = w_cwd w" "w_stderr w4 = w_stderr w"
    unfolding w4e by (simp_all add: w3_def)
  have w5e: "w5 = snd (fmt_group sys (st_gid st) (emit (ljust 8 owner @ '' '') w4))"
    using gr by simp
  have w5: "w_trace w5 = w_trace w" "w_cwd w5 = w_cwd w" "w_stderr w5 = w_stderr w"
    unfolding w5e using w4 by simp_all
  have w7: "w_trace w7 = w_trace w" "w_cwd w7 = w_cwd w" "w_stderr w7 = w_stderr w"
    using w5 by (simp_all add: w7_def)
  have p: "pr_line sys g st name w =
      (case fmt_time sys (st_mtime st) of
         Inl h \<Rightarrow> (Inl h, w7)
       | Inr t \<Rightarrow>
           (case fmt_name sys st name (emit (t @ '' '') w7) of
              (Inl h, w8) \<Rightarrow> (Inl h, w8)
            | (Inr fname, w8) \<Rightarrow> (Inr (), emit nl (emit fname w8))))"
    using o gr unfolding w3_def w7_def by (simp add: pr_line_def Let_def)
  have all: "lookups (w_trace w') = lookups (w_trace w) \<and> w_cwd w' = w_cwd w \<and>
      (r = Inr u \<longrightarrow> w_stderr w' = w_stderr w) \<and> added_ok g' w w'"
  proof (cases "fmt_time sys (st_mtime st)")
    case (Inl h)
    then show ?thesis
      using assms p w7 by (simp add: added_ok_same)
  next
    case (Inr t)
    obtain r1 w8 where f: "fmt_name sys st name (emit (t @ '' '') w7) = (r1, w8)"
      by (cases "fmt_name sys st name (emit (t @ '' '') w7)")
    note e = fmt_name_effect [OF f]
    have a0: "added_ok g' w (emit (t @ '' '') w7)"
      using w7 by (simp add: added_ok_same)
    have a8: "added_ok g' w w8"
      using added_ok_trans [OF a0 e(4)] .
    have a9: "added_ok g' w (emit nl (emit fname w8))" for fname
      using added_ok_trans [OF a8, of "emit nl (emit fname w8)"] by (simp add: added_ok_same)
    show ?thesis
      using assms p Inr f e(1,2,3) w7 a8 a9 by (cases r1) auto
  qed
  show "lookups (w_trace w') = lookups (w_trace w)" using all by blast
  show "w_cwd w' = w_cwd w" using all by blast
  show "w_stderr w' = w_stderr w" if "r = Inr u" using all that by blast
  show "added_ok g' w w'" using all by blast
qed

subsection \<open>The per-entry loop\<close>

lemma lookups_append [simp]: "lookups (a @ b) = lookups a @ lookups b"
  by (simp add: lookups_def)

lemma lookups_lookup_call [simp]: "lookups [lookup_call g nm] = [lookup_call g nm]"
  by (simp add: lookups_def lookup_call_def)

lemma lookup_ok_lookup_call [simp]: "lookup_ok g (lookup_call g nm)"
  by (simp add: lookup_call_def)

lemma do_files_skipped:
  "skip g nm \<noteq> 0 \<Longrightarrow> do_files sys g (nm # rest) w = do_files sys g rest w"
  by simp

lemma do_files_stat_fails:
  assumes "skip g nm = 0" and "os_lookup sys g (w_cwd w) nm = Inl e"
  shows "do_files sys g (nm # rest) w =
     do_files sys g rest
       (err_sys sys (''ls: can not access '' @ nm)
          (w\<lparr>w_trace := w_trace w @ [lookup_call g nm], w_errno := e\<rparr>))"
  using assms by (simp add: get_stat_eq)

lemma do_files_stat_ok:
  assumes "skip g nm = 0" and "os_lookup sys g (w_cwd w) nm = Inr buf"
  shows "do_files sys g (nm # rest) w =
     (case pr_line sys g buf nm (w\<lparr>w_trace := w_trace w @ [lookup_call g nm]\<rparr>) of
        (Inl h, w2) \<Rightarrow> (Inl h, w2)
      | (Inr u, w2) \<Rightarrow> do_files sys g rest w2)"
  using assms by (simp add: get_stat_eq)

lemma do_files_returns:
  "do_files sys g fs w = (Inr u, w') \<Longrightarrow>
     lookups (w_trace w') = lookups (w_trace w) @ map (lookup_call g) (filter (\<lambda>f. skip g f = 0) fs) \<and>
     w_stderr w' =
       w_stderr w @ concat (map (access_error sys g (w_cwd w)) (filter (\<lambda>f. skip g f = 0) fs)) \<and>
     w_cwd w' = w_cwd w"
proof (induction fs arbitrary: w)
  case Nil
  then show ?case by simp
next
  case (Cons nm rest)
  show ?case
  proof (cases "skip g nm = 0")
    case False
    then show ?thesis
      using Cons.prems Cons.IH [of w] by simp
  next
    case True
    show ?thesis
    proof (cases "os_lookup sys g (w_cwd w) nm")
      case (Inl e)
      let ?w1 = "err_sys sys (''ls: can not access '' @ nm)
          (w\<lparr>w_trace := w_trace w @ [lookup_call g nm], w_errno := e\<rparr>)"
      have "do_files sys g rest ?w1 = (Inr u, w')"
        using Cons.prems do_files_stat_fails [OF True Inl, of rest] by simp
      from Cons.IH [OF this] show ?thesis
        using True Inl by (simp add: access_error_def)
    next
      case (Inr buf)
      let ?w1 = "w\<lparr>w_trace := w_trace w @ [lookup_call g nm]\<rparr>"
      obtain r w2 where p: "pr_line sys g buf nm ?w1 = (r, w2)"
        by (cases "pr_line sys g buf nm ?w1")
      have d: "do_files sys g (nm # rest) w =
          (case r of Inl h \<Rightarrow> (Inl h, w2) | Inr u \<Rightarrow> do_files sys g rest w2)"
        using do_files_stat_ok [OF True Inr, of rest] p by (simp split: sum.splits)
      then obtain u' where r: "r = Inr u'" and rest: "do_files sys g rest w2 = (Inr u, w')"
        using Cons.prems by (cases r) auto
      note e = pr_line_effect [OF p]
      have w2: "lookups (w_trace w2) = lookups (w_trace w) @ [lookup_call g nm]"
        "w_cwd w2 = w_cwd w" "w_stderr w2 = w_stderr w"
        using e(1) e(2) e(3) [OF r] by simp_all
      from Cons.IH [OF rest] show ?thesis
        using True Inr w2 by (simp add: access_error_def)
    qed
  qed
qed

lemma do_files_lookups_prefix:
  "\<exists>k. lookups (w_trace (snd (do_files sys g fs w))) =
         lookups (w_trace w) @ map (lookup_call g) (take k (filter (\<lambda>f. skip g f = 0) fs))"
proof (induction fs arbitrary: w)
  case Nil
  show ?case by simp
next
  case (Cons nm rest)
  let ?F = "filter (\<lambda>f. skip g f = 0) rest"
  show ?case
  proof (cases "skip g nm = 0")
    case False
    then show ?thesis
      using Cons.IH [of w] by simp
  next
    case True
    show ?thesis
    proof (cases "os_lookup sys g (w_cwd w) nm")
      case (Inl e)
      let ?w1 = "err_sys sys (''ls: can not access '' @ nm)
          (w\<lparr>w_trace := w_trace w @ [lookup_call g nm], w_errno := e\<rparr>)"
      obtain k where "lookups (w_trace (snd (do_files sys g rest ?w1))) =
          lookups (w_trace ?w1) @ map (lookup_call g) (take k ?F)"
        using Cons.IH [of ?w1] by blast
      then have "lookups (w_trace (snd (do_files sys g (nm # rest) w))) =
          lookups (w_trace w) @ map (lookup_call g) (take (Suc k) (nm # ?F))"
        using do_files_stat_fails [OF True Inl, of rest] by simp
      then show ?thesis
        using True by (intro exI [where x = "Suc k"]) simp
    next
      case (Inr buf)
      let ?w1 = "w\<lparr>w_trace := w_trace w @ [lookup_call g nm]\<rparr>"
      obtain r w2 where p: "pr_line sys g buf nm ?w1 = (r, w2)"
        by (cases "pr_line sys g buf nm ?w1")
      have d: "do_files sys g (nm # rest) w =
          (case r of Inl h \<Rightarrow> (Inl h, w2) | Inr u \<Rightarrow> do_files sys g rest w2)"
        using do_files_stat_ok [OF True Inr, of rest] p by (simp split: sum.splits)
      have w2: "lookups (w_trace w2) = lookups (w_trace w) @ [lookup_call g nm]"
        using pr_line_effect(1) [OF p] by simp
      show ?thesis
      proof (cases r)
        case (Inl h)
        then have "lookups (w_trace (snd (do_files sys g (nm # rest) w))) =
            lookups (w_trace w) @ map (lookup_call g) (take (Suc 0) (nm # ?F))"
          using d w2 by simp
        then show ?thesis
          using True by (intro exI [where x = "Suc 0"]) simp
      next
        case (Inr u)
        obtain k where "lookups (w_trace (snd (do_files sys g rest w2))) =
            lookups (w_trace w2) @ map (lookup_call g) (take k ?F)"
          using Cons.IH [of w2] by blast
        then have "lookups (w_trace (snd (do_files sys g (nm # rest) w))) =
            lookups (w_trace w) @ map (lookup_call g) (take (Suc k) (nm # ?F))"
          using d Inr w2 by simp
        then show ?thesis
          using True by (intro exI [where x = "Suc k"]) simp
      qed
    qed
  qed
qed

lemma do_files_added: "added_ok g w (snd (do_files sys g fs w))"
proof (induction fs arbitrary: w)
  case Nil
  show ?case by (simp add: added_ok_same)
next
  case (Cons nm rest)
  show ?case
  proof (cases "skip g nm = 0")
    case False
    then show ?thesis
      using Cons.IH [of w] by simp
  next
    case True
    let ?w0 = "w\<lparr>w_trace := w_trace w @ [lookup_call g nm]\<rparr>"
    have a0: "added_ok g w w0" if "w_trace w0 = w_trace w @ [lookup_call g nm]" for w0
      using that by (rule added_ok_call) simp
    show ?thesis
    proof (cases "os_lookup sys g (w_cwd w) nm")
      case (Inl e)
      let ?w1 = "err_sys sys (''ls: can not access '' @ nm)
          (w\<lparr>w_trace := w_trace w @ [lookup_call g nm], w_errno := e\<rparr>)"
      have "added_ok g w ?w1"
        by (rule a0) simp
      then have "added_ok g w (snd (do_files sys g rest ?w1))"
        using Cons.IH [of ?w1] by (rule added_ok_trans)
      then show ?thesis
        using do_files_stat_fails [OF True Inl, of rest] by simp
    next
      case (Inr buf)
      obtain r w2 where p: "pr_line sys g buf nm ?w0 = (r, w2)"
        by (cases "pr_line sys g buf nm ?w0")
      have d: "do_files sys g (nm # rest) w =
          (case r of Inl h \<Rightarrow> (Inl h, w2) | Inr u \<Rightarrow> do_files sys g rest w2)"
        using do_files_stat_ok [OF True Inr, of rest] p by (simp split: sum.splits)
      have "added_ok g w ?w0"
        by (rule a0) simp
      then have w2: "added_ok g w w2"
        using pr_line_effect(4) [OF p, of g] by (rule added_ok_trans)
      have "added_ok g w (snd (do_files sys g rest w2))"
        using w2 Cons.IH [of w2] by (rule added_ok_trans)
      then show ?thesis
        using d w2 by (cases r) simp_all
    qed
  qed
qed

text \<open>
  Claim C10. In the per-entry loop \<^verbatim>\<open>skip\<close> is evaluated before any lookup: a suppressed
  entry leaves the whole process state as it was (no lookup, no output, no error) and the
  loop goes on with the next entry. The lookups that the loop makes are those of the
  entries that are not suppressed, in order: a prefix of them in general (a fatal error in
  \<^verbatim>\<open>pr_line\<close> ends the run), all of them when the loop returns. A loop that returns has
  written to standard error exactly one access-error line for each entry that is not
  suppressed and whose lookup fails, and nothing else.
\<close>

theorem do_files_skip_before_stat:
  "(skip g nm \<noteq> 0 \<longrightarrow> do_files sys g (nm # rest) w = do_files sys g rest w) \<and>
   (\<forall>e. skip g nm = 0 \<and> os_lookup sys g (w_cwd w) nm = Inl e \<longrightarrow>
      do_files sys g (nm # rest) w =
        do_files sys g rest
          (err_sys sys (''ls: can not access '' @ nm)
             (w\<lparr>w_trace := w_trace w @ [lookup_call g nm], w_errno := e\<rparr>))) \<and>
   (\<exists>k. lookups (w_trace (snd (do_files sys g fs w))) =
      lookups (w_trace w) @ map (lookup_call g) (take k (filter (\<lambda>f. skip g f = 0) fs))) \<and>
   (\<forall>u w'. do_files sys g fs w = (Inr u, w') \<longrightarrow>
      lookups (w_trace w') =
        lookups (w_trace w) @ map (lookup_call g) (filter (\<lambda>f. skip g f = 0) fs) \<and>
      w_stderr w' =
        w_stderr w @ concat (map (access_error sys g (w_cwd w)) (filter (\<lambda>f. skip g f = 0) fs)))"
proof (intro conjI allI impI)
  show "do_files sys g (nm # rest) w = do_files sys g rest w" if "skip g nm \<noteq> 0"
    using that by (rule do_files_skipped)
  show "do_files sys g (nm # rest) w =
        do_files sys g rest
          (err_sys sys (''ls: can not access '' @ nm)
             (w\<lparr>w_trace := w_trace w @ [lookup_call g nm], w_errno := e\<rparr>))"
    if "skip g nm = 0 \<and> os_lookup sys g (w_cwd w) nm = Inl e" for e
    using that do_files_stat_fails [of g nm sys w e rest] by blast
  show "\<exists>k. lookups (w_trace (snd (do_files sys g fs w))) =
      lookups (w_trace w) @ map (lookup_call g) (take k (filter (\<lambda>f. skip g f = 0) fs))"
    by (rule do_files_lookups_prefix)
  show "lookups (w_trace w') =
        lookups (w_trace w) @ map (lookup_call g) (filter (\<lambda>f. skip g f = 0) fs)"
    if "do_files sys g fs w = (Inr u, w')" for u w'
    using do_files_returns [OF that] by blast
  show "w_stderr w' =
        w_stderr w @ concat (map (access_error sys g (w_cwd w)) (filter (\<lambda>f. skip g f = 0) fs))"
    if "do_files sys g fs w = (Inr u, w')" for u w'
    using do_files_returns [OF that] by blast
qed

theorem do_files_skip_before_stat_witness:
  "do_files os_example g_args [''.cfg'', ''gone'', ''b.txt''] (w_start\<lparr>w_cwd := ''/home/docs''\<rparr>) =
     (Inr (),
      \<lparr>w_cwd = ''/home/docs'', w_errno = 0,
       w_stdout = ''21     1  -rw-r--r-- ann      staff          5 1970-01-01 00:00 b.txt'' @ nl,
       w_stderr = ''ls: can not access gone: No such file or directory'' @ nl,
       w_allocs = 0, w_trace = [Lstat ''gone'', Lstat ''b.txt'']\<rparr>) \<and>
   skip g_args ''.cfg'' \<noteq> 0 \<and>
   do_files os_example g_args [''.cfg'', ''gone'', ''b.txt''] (w_start\<lparr>w_cwd := ''/home/docs''\<rparr>) =
     do_files os_example g_args [''gone'', ''b.txt''] (w_start\<lparr>w_cwd := ''/home/docs''\<rparr>)"
proof -
  let ?w = "w_start\<lparr>w_cwd := ''/home/docs''\<rparr>"
  have s: "skip g_args ''.cfg'' \<noteq> 0"
    by (simp add: skip_def g_args_def char_at_def)
  have e: "do_files os_example g_args [''gone'', ''b.txt''] ?w =
     (Inr (),
      \<lparr>w_cwd = ''/home/docs'', w_errno = 0,
       w_stdout = ''21     1  -rw-r--r-- ann      staff          5 1970-01-01 00:00 b.txt'' @ nl,
       w_stderr = ''ls: can not access gone: No such file or directory'' @ nl,
       w_allocs = 0, w_trace = [Lstat ''gone'', Lstat ''b.txt'']\<rparr>)"
    by (simp add: sys_defs mode_defs prog_defs example_defs fmt_eval)
  have d: "do_files os_example g_args [''.cfg'', ''gone'', ''b.txt''] ?w =
      do_files os_example g_args [''gone'', ''b.txt''] ?w"
    using do_files_skip_before_stat [of g_args "''.cfg''" os_example "[''gone'', ''b.txt'']" ?w] s
    by blast
  show ?thesis
    using s e d by simp
qed

subsection \<open>The directory loop\<close>

lemma readdir_loop_trace: "w_trace (snd (readdir_loop sys names n acc w)) = w_trace w"
proof (induction names arbitrary: n acc w)
  case Nil
  show ?case by simp
next
  case (Cons d rest)
  obtain ok w1 where a: "alloc sys w = (ok, w1)"
    by (cases "alloc sys w")
  have w1: "w_trace w1 = w_trace w"
    using alloc_fields(1) [of sys w] a by simp
  show ?case
    using a w1 Cons.IH [of _ _ w1] Cons.IH [of _ _ w] by (cases ok) simp_all
qed

lemma listdir_added: "added_ok g w (snd (listdir sys dir w))"
proof -
  obtain ok w1 where a: "alloc sys w = (ok, w1)"
    by (cases "alloc sys w")
  have w1: "w_trace w1 = w_trace w"
    using alloc_fields(1) [of sys w] a by simp
  show ?thesis
  proof (cases ok)
    case False
    then show ?thesis using a w1 by (simp add: listdir_def added_ok_same)
  next
    case True
    obtain r w2 where o: "sys_opendir sys dir w1 = (r, w2)"
      by (cases "sys_opendir sys dir w1")
    have w2: "w_trace w2 = w_trace w @ [Opendir dir]"
      using o w1 by (auto simp: sys_opendir_def answer_def log_call_def split: sum.splits)
    have "w_trace (snd (listdir sys dir w)) = w_trace w @ [Opendir dir]"
      using a True o w2 by (cases r) (simp_all add: listdir_def readdir_loop_trace)
    then show ?thesis
      by (rule added_ok_call) simp
  qed
qed

lemma sys_chdir_added: "added_ok g w (snd (sys_chdir sys p w))"
proof -
  have "w_trace (snd (sys_chdir sys p w)) = w_trace w @ [Chdir p]"
    by (auto simp: sys_chdir_def log_call_def Let_def split: option.splits sum.splits)
  then show ?thesis
    by (rule added_ok_call) simp
qed

lemma do_dirs_loop_added: "added_ok g w (snd (do_dirs_loop sys g dc cwd dirs w))"
proof (induction dirs arbitrary: w)
  case Nil
  show ?case by (simp add: added_ok_same)
next
  case (Cons dir rest)
  obtain r1 w1 where l: "listdir sys dir w = (r1, w1)"
    by (cases "listdir sys dir w")
  have w1: "added_ok g w w1"
    using listdir_added [of g w sys dir] l by simp
  show ?case
  proof (cases r1)
    case (Inl h)
    then show ?thesis using l w1 by simp
  next
    case (Inr res)
    show ?thesis
    proof (cases res)
      case None
      have "added_ok g w (snd (do_dirs_loop sys g dc cwd rest w1))"
        using w1 Cons.IH [of w1] by (rule added_ok_trans)
      then show ?thesis using l Inr None by simp
    next
      case (Some names)
      obtain r2 w2 where c: "sys_chdir sys (Some dir) w1 = (r2, w2)"
        by (cases "sys_chdir sys (Some dir) w1")
      have "added_ok g w1 w2"
        using sys_chdir_added [of g w1 sys "Some dir"] c by simp
      with w1 have w2: "added_ok g w w2"
        by (rule added_ok_trans)
      show ?thesis
      proof (cases r2)
        case (Inl e)
        let ?w3 = "err_sys sys ''ls: can not chdir'' w2"
        have "added_ok g w2 ?w3"
          by (simp add: added_ok_same)
        with w2 have "added_ok g w ?w3"
          by (rule added_ok_trans)
        then have "added_ok g w (snd (do_dirs_loop sys g dc cwd rest ?w3))"
          using Cons.IH [of ?w3] by (rule added_ok_trans)
        then show ?thesis
          using l Inr Some c Inl by simp
      next
        case r2: (Inr u2)
        define w3 where "w3 = (if dc > 0 \<and> fc g > 1 then emit (nl @ dir @ '':'' @ nl) w2 else w2)"
        have "added_ok g w2 w3"
          by (simp add: w3_def added_ok_same)
        with w2 have w3: "added_ok g w w3"
          by (rule added_ok_trans)
        obtain r4 w4 where f: "do_files sys g (sort_ls names) w3 = (r4, w4)"
          by (cases "do_files sys g (sort_ls names) w3")
        have "added_ok g w3 w4"
          using do_files_added [of g w3 sys "sort_ls names"] f by simp
        with w3 have w4: "added_ok g w w4"
          by (rule added_ok_trans)
        obtain r5 w5 where b: "sys_chdir sys cwd w4 = (r5, w5)"
          by (cases "sys_chdir sys cwd w4")
        have "added_ok g w4 w5"
          using sys_chdir_added [of g w4 sys cwd] b by simp
        with w4 have w5: "added_ok g w w5"
          by (rule added_ok_trans)
        have w6: "added_ok g w (err_sys sys ''ls: can not chdir'' w5)"
          using w5 by (rule added_ok_trans) (simp add: added_ok_same)
        have w7: "added_ok g w (snd (do_dirs_loop sys g dc cwd rest w5))"
          using w5 Cons.IH [of w5] by (rule added_ok_trans)
        have step: "do_dirs_loop sys g dc cwd (dir # rest) w =
            (case r4 of
               Inl h \<Rightarrow> (Inl h, w4)
             | Inr u \<Rightarrow>
                 (case r5 of
                    Inl e \<Rightarrow> (Inl (Exit 1), err_sys sys ''ls: can not chdir'' w5)
                  | Inr u \<Rightarrow> do_dirs_loop sys g dc cwd rest w5))"
          using l Inr Some c r2 f b by (simp add: Let_def w3_def split: sum.splits)
        show ?thesis
          unfolding step using w4 w6 w7 by (simp split: sum.splits)
      qed
    qed
  qed
qed

lemma do_dirs_added: "added_ok g w (snd (do_dirs sys g dirs w))"
proof -
  obtain ok w1 where a: "alloc sys w = (ok, w1)"
    by (cases "alloc sys w")
  have w1: "w_trace w1 = w_trace w"
    using alloc_fields(1) [of sys w] a by simp
  obtain r w2 where c: "sys_getcwd sys (\<not> ok) w1 = (r, w2)"
    by (cases "sys_getcwd sys (\<not> ok) w1")
  have "w_trace w2 = w_trace w @ [Getcwd]"
    using c w1 by (auto simp: sys_getcwd_def answer_def log_call_def split: sum.splits)
  then have w2: "added_ok g w w2"
    by (rule added_ok_call) simp
  have w3: "added_ok g w (err_sys sys ''ls: can not get current dir'' w2)"
    using w2 by (rule added_ok_trans) (simp add: added_ok_same)
  have w4: "added_ok g w (snd (do_dirs_loop sys g dc cwd dirs w2))" for dc cwd
    using w2 do_dirs_loop_added by (rule added_ok_trans)
  show ?thesis
    using a c w3 w4 by (cases r) (simp_all add: do_dirs_def)
qed

lemma getopt_loop_world:
  "w_trace (snd (getopt_loop rs g w)) = w_trace w \<and>
   w_allocs (snd (getopt_loop rs g w)) = w_allocs w \<and>
   w_cwd (snd (getopt_loop rs g w)) = w_cwd w \<and>
   w_stdout (snd (getopt_loop rs g w)) = w_stdout w"
proof (induction rs arbitrary: g w)
  case Nil
  show ?case by simp
next
  case (Cons r rest)
  obtain opt diag where r: "r = (opt, diag)" by (cases r)
  show ?case
    unfolding r using Cons.IH [of _ "emit_err diag w"] by (simp add: Let_def emit_err_def)
qed

lemma main_trace:
  assumes p: "fst (parse_args rs operands g_args w) = (0, g)"
    and a1: "os_alloc sys (w_allocs w)" and a2: "os_alloc sys (Suc (w_allocs w))"
  shows "\<exists>evs. w_trace (snd (main sys rs operands w)) = w_trace w @ map Stat (targets g) @ evs \<and>
           list_all (lookup_ok g) evs"
proof -
  obtain w1 where pa: "parse_args rs operands g_args w = ((0, g), w1)"
    using p by (cases "parse_args rs operands g_args w") auto
  have "w1 = snd (getopt_loop rs g_args w)"
    using pa parse_args_stderr [of rs operands g_args w] by simp
  then have w1: "w_trace w1 = w_trace w" "w_allocs w1 = w_allocs w"
    using getopt_loop_world [of rs g_args w] by simp_all
  obtain w2 where al1: "alloc sys w1 = (True, w2)" and w2: "w_trace w2 = w_trace w"
    "w_allocs w2 = Suc (w_allocs w)"
    using a1 w1 by (simp add: alloc_def Let_def)
  obtain w3 where al2: "alloc sys w2 = (True, w3)" and w3: "w_trace w3 = w_trace w"
    using a2 w2 by (simp add: alloc_def Let_def)
  obtain dirs fs w4 where cl: "classify sys g w3 = ((dirs, fs), w4)"
    by (cases "classify sys g w3") auto
  have w4: "w_trace w4 = w_trace w @ map Stat (targets g)"
    using classify_loop_world(1) [of sys "targets g" "[]" "[]" w3] cl w3 by (simp add: classify_def)
  obtain r5 w5 where f: "do_files sys g (sort_ls fs) w4 = (r5, w5)"
    by (cases "do_files sys g (sort_ls fs) w4")
  have w5: "added_ok g w4 w5"
    using do_files_added [of g w4 sys "sort_ls fs"] f by simp
  obtain r6 w6 where d: "do_dirs sys g (sort_ls dirs) w5 = (r6, w6)"
    by (cases "do_dirs sys g (sort_ls dirs) w5")
  have "added_ok g w5 w6"
    using do_dirs_added [of g w5 sys "sort_ls dirs"] d by simp
  with w5 have w6: "added_ok g w4 w6"
    by (rule added_ok_trans)
  have "snd (main sys rs operands w) = w5 \<or> snd (main sys rs operands w) = w6"
    using pa al1 al2 cl f d by (simp add: main_def Let_def split: sum.splits)
  then have "added_ok g w4 (snd (main sys rs operands w))"
    using w5 w6 by auto
  then show ?thesis
    using w4 by (auto simp: added_ok_iff)
qed

text \<open>
  Claim C2, as the code has it. Every lookup made for display goes through \<^verbatim>\<open>get_stat\<close>:
  whatever the trace so far, the calls that \<^verbatim>\<open>do_files\<close> and \<^verbatim>\<open>do_dirs\<close> add to it contain
  a \<^verbatim>\<open>stat\<close> only when follow-symlinks is set and an \<^verbatim>\<open>lstat\<close> only when it is not, and
  the record that an entry is displayed from is the answer of \<^verbatim>\<open>stat\<close> when the option
  is set and of \<^verbatim>\<open>lstat\<close> otherwise. The classification test \<^verbatim>\<open>isdir\<close> does not look at the
  option: its answer is that of \<^verbatim>\<open>stat\<close>, and \<^verbatim>\<open>classify\<close> adds one \<^verbatim>\<open>stat\<close> per target. So
  the trace of a whole run with recognised flags, once the two arrays of \<^verbatim>\<open>main\<close> are
  allocated, is one \<^verbatim>\<open>stat\<close> per target followed by calls that agree with the option.
\<close>

theorem lookup_choice:
  "(\<exists>evs. w_trace (snd (do_files sys g fs w)) = w_trace w @ evs \<and> list_all (lookup_ok g) evs) \<and>
   (\<exists>evs. w_trace (snd (do_dirs sys g ds w)) = w_trace w @ evs \<and> list_all (lookup_ok g) evs) \<and>
   (skip g nm = 0 \<longrightarrow>
      do_files sys g (nm # rest) w =
        (case os_lookup sys g (w_cwd w) nm of
           Inl e \<Rightarrow>
             do_files sys g rest
               (err_sys sys (''ls: can not access '' @ nm)
                  (w\<lparr>w_trace := w_trace w @ [lookup_call g nm], w_errno := e\<rparr>))
         | Inr buf \<Rightarrow>
             (case pr_line sys g buf nm (w\<lparr>w_trace := w_trace w @ [lookup_call g nm]\<rparr>) of
                (Inl h, w2) \<Rightarrow> (Inl h, w2)
              | (Inr u, w2) \<Rightarrow> do_files sys g rest w2))) \<and>
   fst (isdir sys p w) =
     (case os_stat sys (w_cwd w) p of
        Inl e \<Rightarrow> 0
      | Inr buf \<Rightarrow> if S_ISDIR (st_mode buf) then 1 else 0) \<and>
   w_trace (snd (isdir sys p w)) = w_trace w @ [Stat p] \<and>
   w_trace (snd (classify sys g w)) = w_trace w @ map Stat (targets g) \<and>
   (fst (parse_args rs operands g_args w) = (0, g) \<and>
    os_alloc sys (w_allocs w) \<and> os_alloc sys (Suc (w_allocs w)) \<longrightarrow>
      (\<exists>evs. w_trace (snd (main sys rs operands w)) = w_trace w @ map Stat (targets g) @ evs \<and>
         list_all (lookup_ok g) evs))"
proof (intro conjI impI)
  show "\<exists>evs. w_trace (snd (do_files sys g fs w)) = w_trace w @ evs \<and> list_all (lookup_ok g) evs"
    using do_files_added [of g w sys fs] by (simp add: added_ok_iff)
  show "\<exists>evs. w_trace (snd (do_dirs sys g ds w)) = w_trace w @ evs \<and> list_all (lookup_ok g) evs"
    using do_dirs_added [of g w sys ds] by (simp add: added_ok_iff)
  show "do_files sys g (nm # rest) w =
        (case os_lookup sys g (w_cwd w) nm of
           Inl e \<Rightarrow>
             do_files sys g rest
               (err_sys sys (''ls: can not access '' @ nm)
                  (w\<lparr>w_trace := w_trace w @ [lookup_call g nm], w_errno := e\<rparr>))
         | Inr buf \<Rightarrow>
             (case pr_line sys g buf nm (w\<lparr>w_trace := w_trace w @ [lookup_call g nm]\<rparr>) of
                (Inl h, w2) \<Rightarrow> (Inl h, w2)
              | (Inr u, w2) \<Rightarrow> do_files sys g rest w2))"
    if "skip g nm = 0"
    using that by (simp add: get_stat_eq split: sum.splits)
  show "fst (isdir sys p w) =
     (case os_stat sys (w_cwd w) p of
        Inl e \<Rightarrow> 0
      | Inr buf \<Rightarrow> if S_ISDIR (st_mode buf) then 1 else 0)"
    by (rule isdir_fst)
  show "w_trace (snd (isdir sys p w)) = w_trace w @ [Stat p]"
    by (rule isdir_snd(1))
  show "w_trace (snd (classify sys g w)) = w_trace w @ map Stat (targets g)"
    by (simp add: classify_def classify_loop_world(1))
  show "\<exists>evs. w_trace (snd (main sys rs operands w)) = w_trace w @ map Stat (targets g) @ evs \<and>
         list_all (lookup_ok g) evs"
    if "fst (parse_args rs operands g_args w) = (0, g) \<and>
        os_alloc sys (w_allocs w) \<and> os_alloc sys (Suc (w_allocs w))"
    using that main_trace [of rs operands w g sys] by blast
qed

text \<open>
  Claim C2 as stated fails on \<^verbatim>\<open>ls link\<close>, \<^verbatim>\<open>link\<close> a symbolic link to a directory and no
  flag given: follow-symlinks is off, the directory entries are looked up with \<^verbatim>\<open>lstat\<close>,
  but the classification looked \<^verbatim>\<open>link\<close> up with \<^verbatim>\<open>stat\<close>, found a directory and listed it.
\<close>

theorem classification_follows_links:
  "follow (snd (fst (parse_args [] [''link''] g_args w_start))) = 0 \<and>
   os_lstat os_example ''/home'' ''link'' = Inr (symlink 14 4) \<and>
   S_ISLNK (st_mode (symlink 14 4)) \<and>
   isdir os_example ''link'' w_start = (1, w_start\<lparr>w_trace := [Stat ''link'']\<rparr>) \<and>
   w_trace (snd (main os_example [] [''link''] w_start)) =
     [Stat ''link'', Getcwd, Opendir ''link'', Chdir (Some ''link''), Lstat ''b.txt'',
      Lstat ''gone'', Chdir (Some ''/home'')]"
  by (simp add: sys_defs mode_defs prog_defs example_defs fmt_eval sort_eval)

theorem lookup_choice_witness:
  "fst (parse_args [] [''notes.txt'', ''docs''] g_args w_start) =
     (0, g_args\<lparr>files := [''notes.txt'', ''docs''], fc := 2\<rparr>) \<and>
   os_alloc os_example (w_allocs w_start) \<and> os_alloc os_example (Suc (w_allocs w_start)) \<and>
   w_trace (snd (main os_example [] [''notes.txt'', ''docs''] w_start)) =
     [Stat ''notes.txt'', Stat ''docs'', Lstat ''notes.txt'', Getcwd, Opendir ''docs'',
      Chdir (Some ''docs''), Lstat ''b.txt'', Lstat ''gone'', Chdir (Some ''/home'')] \<and>
   list_all (lookup_ok (g_args\<lparr>files := [''notes.txt'', ''docs''], fc := 2\<rparr>))
     [Lstat ''notes.txt'', Getcwd, Opendir ''docs'', Chdir (Some ''docs''), Lstat ''b.txt'',
      Lstat ''gone'', Chdir (Some ''/home'')] \<and>
   w_trace (snd (main os_example [(of_char CHR ''L'', [])] [''notes.txt'', ''docs''] w_start)) =
     [Stat ''notes.txt'', Stat ''docs'', Stat ''notes.txt'', Getcwd, Opendir ''docs'',
      Chdir (Some ''docs''), Stat ''b.txt'', Stat ''gone'', Chdir (Some ''/home'')]"
proof -
  let ?g = "g_args\<lparr>files := [''notes.txt'', ''docs''], fc := 2\<rparr>"
  have p: "fst (parse_args [] [''notes.txt'', ''docs''] g_args w_start) = (0, ?g)"
    by (simp add: parse_args_def g_args_def)
  have a: "os_alloc os_example (w_allocs w_start)" "os_alloc os_example (Suc (w_allocs w_start))"
    by (simp_all add: os_example_def)
  have t: "targets ?g = [''notes.txt'', ''docs'']" "w_trace w_start = []"
    by (simp_all add: targets_def w_start_def)
  have e: "w_trace (snd (main os_example [] [''notes.txt'', ''docs''] w_start)) =
     [Stat ''notes.txt'', Stat ''docs'', Lstat ''notes.txt'', Getcwd, Opendir ''docs'',
      Chdir (Some ''docs''), Lstat ''b.txt'', Lstat ''gone'', Chdir (Some ''/home'')]"
    "w_trace (snd (main os_example [(of_char CHR ''L'', [])] [''notes.txt'', ''docs''] w_start)) =
     [Stat ''notes.txt'', Stat ''docs'', Stat ''notes.txt'', Getcwd, Opendir ''docs'',
      Chdir (Some ''docs''), Stat ''b.txt'', Stat ''gone'', Chdir (Some ''/home'')]"
    by (simp_all add: sys_defs mode_defs prog_defs example_defs fmt_eval sort_eval)
  have "\<exists>evs. w_trace (snd (main os_example [] [''notes.txt'', ''docs''] w_start)) =
      w_trace w_start @ map Stat (targets ?g) @ evs \<and> list_all (lookup_ok ?g) evs"
    using lookup_choice [of os_example ?g "[]" w_start "[]" "''x''" "[]" "''x''"
        "[]" "[''notes.txt'', ''docs'']"] p a
    by blast
  then have l: "list_all (lookup_ok ?g)
     [Lstat ''notes.txt'', Getcwd, Opendir ''docs'', Chdir (Some ''docs''), Lstat ''b.txt'',
      Lstat ''gone'', Chdir (Some ''/home'')]"
    unfolding e(1) t by auto
  show ?thesis
    using p a e l by blast
qed

subsection \<open>Runs without a fatal condition end with status 0\<close>

lemma alloc_ok: "\<forall>n. os_alloc sys n \<Longrightarrow> fst (alloc sys w) = True"
  by (simp add: alloc_def Let_def)

lemma fmt_name_returns:
  assumes a: "\<forall>n. os_alloc sys n"
    and r: "\<forall>cwd p. \<exists>t. os_readlink sys cwd p = Inr t"
  shows "\<exists>fname. fst (fmt_name sys st name w) = Inr fname"
proof -
  obtain ok w1 where al: "alloc sys w = (ok, w1)"
    by (cases "alloc sys w")
  have ok: "ok"
    using alloc_ok [OF a, of w] al by simp
  obtain t where "os_readlink sys (w_cwd w1) name = Inr t"
    using r by blast
  then show ?thesis
    using al ok by (simp add: fmt_name_def sys_readlink_def answer_def Let_def)
qed

lemma pr_line_returns:
  assumes a: "\<forall>n. os_alloc sys n"
    and r: "\<forall>cwd p. \<exists>t. os_readlink sys cwd p = Inr t"
    and lt: "\<forall>t. \<exists>s. os_strftime sys t = Some s"
  shows "\<exists>u. fst (pr_line sys g st name w) = Inr u"
proof -
  obtain s where "os_strftime sys (st_mtime st) = Some s"
    using lt by blast
  then have t: "fmt_time sys (st_mtime st) = Inr s"
    by (simp add: fmt_time_def)
  have "\<exists>fname. fst (fmt_name sys st name w7) = Inr fname" for w7
    by (rule fmt_name_returns [OF a r])
  then show ?thesis
    using t by (simp add: pr_line_def Let_def split: prod.splits sum.splits) (metis fst_conv sum.distinct(1))
qed

lemma do_files_normal:
  assumes a: "\<forall>n. os_alloc sys n"
    and r: "\<forall>cwd p. \<exists>t. os_readlink sys cwd p = Inr t"
    and lt: "\<forall>t. \<exists>s. os_strftime sys t = Some s"
  shows "fst (do_files sys g fs w) = Inr ()"
proof (induction fs arbitrary: w)
  case Nil
  show ?case by simp
next
  case (Cons nm rest)
  show ?case
  proof (cases "skip g nm = 0")
    case False
    then show ?thesis using Cons.IH by simp
  next
    case True
    obtain r1 w1 where s: "get_stat sys g nm w = (r1, w1)"
      by (cases "get_stat sys g nm w")
    show ?thesis
    proof (cases r1)
      case (Inl e)
      then show ?thesis using True s Cons.IH by simp
    next
      case (Inr buf)
      obtain r2 w2 where p: "pr_line sys g buf nm w1 = (r2, w2)"
        by (cases "pr_line sys g buf nm w1")
      obtain u where "r2 = Inr u"
        using pr_line_returns [OF a r lt, of g buf nm w1] p by auto
      then show ?thesis
        using True s Inr p Cons.IH by simp
    qed
  qed
qed

lemma readdir_loop_normal:
  assumes a: "\<forall>n. os_alloc sys n"
  shows "\<exists>names'. fst (readdir_loop sys names n acc w) = Inr (Some names')"
proof (induction names arbitrary: n acc w)
  case Nil
  show ?case by simp
next
  case (Cons d rest)
  obtain ok w1 where al: "alloc sys w = (ok, w1)"
    by (cases "alloc sys w")
  have ok: "ok"
    using alloc_ok [OF a, of w] al by simp
  show ?case
    using al ok Cons.IH by simp
qed

lemma listdir_normal:
  assumes a: "\<forall>n. os_alloc sys n"
  shows "\<exists>res. fst (listdir sys dir w) = Inr res"
proof -
  obtain ok w1 where al: "alloc sys w = (ok, w1)"
    by (cases "alloc sys w")
  have ok: "ok"
    using alloc_ok [OF a, of w] al by simp
  obtain r w2 where o: "sys_opendir sys dir w1 = (r, w2)"
    by (cases "sys_opendir sys dir w1")
  show ?thesis
  proof (cases r)
    case (Inl e)
    then show ?thesis using al ok o by (simp add: listdir_def)
  next
    case (Inr names)
    obtain names' where "fst (readdir_loop sys names 32 [] w2) = Inr (Some names')"
      using readdir_loop_normal [OF a] by blast
    then show ?thesis using al ok o Inr by (simp add: listdir_def)
  qed
qed

lemma do_dirs_loop_normal:
  assumes a: "\<forall>n. os_alloc sys n"
    and r: "\<forall>cwd p. \<exists>t. os_readlink sys cwd p = Inr t"
    and lt: "\<forall>t. \<exists>s. os_strftime sys t = Some s"
    and c: "\<forall>cwd p. \<exists>d. os_chdir sys cwd p = Inr d"
  shows "fst (do_dirs_loop sys g dc (Some home) dirs w) = Inr ()"
proof (induction dirs arbitrary: w)
  case Nil
  show ?case by simp
next
  case (Cons dir rest)
  obtain r1 w1 where l: "listdir sys dir w = (r1, w1)"
    by (cases "listdir sys dir w")
  obtain res where r1: "r1 = Inr res"
    using listdir_normal [OF a, of dir w] l by auto
  show ?case
  proof (cases res)
    case None
    then show ?thesis using l r1 Cons.IH by simp
  next
    case (Some names)
    have ch: "\<exists>w'. sys_chdir sys (Some p) w0 = (Inr (), w')" for p w0
    proof -
      obtain d where "os_chdir sys (w_cwd w0) p = Inr d"
        using c by blast
      then show ?thesis
        by (simp add: sys_chdir_def Let_def)
    qed
    obtain w2 where c1: "sys_chdir sys (Some dir) w1 = (Inr (), w2)"
      using ch by blast
    define w3 where "w3 = (if dc > 0 \<and> fc g > 1 then emit (nl @ dir @ '':'' @ nl) w2 else w2)"
    obtain r4 w4 where f: "do_files sys g (sort_ls names) w3 = (r4, w4)"
      by (cases "do_files sys g (sort_ls names) w3")
    have r4: "r4 = Inr ()"
      using do_files_normal [OF a r lt, of g "sort_ls names" w3] f by simp
    obtain w5 where c2: "sys_chdir sys (Some home) w4 = (Inr (), w5)"
      using ch by blast
    have "do_dirs_loop sys g dc (Some home) (dir # rest) w = do_dirs_loop sys g dc (Some home) rest w5"
      using l r1 Some c1 f r4 c2 by (simp add: Let_def w3_def)
    then show ?thesis
      using Cons.IH by simp
  qed
qed

text \<open>
  Partial failures do not change the exit status: when every allocation succeeds,
  \<^verbatim>\<open>getcwd\<close> succeeds, every \<^verbatim>\<open>chdir\<close> succeeds, every \<^verbatim>\<open>readlink\<close> succeeds and \<^verbatim>\<open>localtime\<close>
  never returns \<^verbatim>\<open>NULL\<close>, a run with recognised flags ends with status 0, whatever \<^verbatim>\<open>stat\<close>,
  \<^verbatim>\<open>lstat\<close> and \<^verbatim>\<open>opendir\<close> answer.
\<close>

lemma main_exits_0:
  assumes a: "\<forall>n. os_alloc sys n"
    and r: "\<forall>cwd p. \<exists>t. os_readlink sys cwd p = Inr t"
    and lt: "\<forall>t. \<exists>s. os_strftime sys t = Some s"
    and c: "\<forall>cwd p. \<exists>d. os_chdir sys cwd p = Inr d"
    and gc: "\<forall>cwd b. \<exists>d. os_getcwd sys cwd b = Inr d"
    and p: "fst (fst (parse_args rs operands g_args w0)) = 0"
  shows "fst (main sys rs operands w0) = Exit 0"
proof -
  obtain g w where pa: "parse_args rs operands g_args w0 = ((0, g), w)"
    using p by (cases "parse_args rs operands g_args w0") auto
  obtain ok1 w1 where a1: "alloc sys w = (ok1, w1)"
    by (cases "alloc sys w")
  obtain ok2 w2 where a2: "alloc sys w1 = (ok2, w2)"
    by (cases "alloc sys w1")
  have ok: "ok1" "ok2"
    using alloc_ok [OF a, of w] alloc_ok [OF a, of w1] a1 a2 by simp_all
  obtain dirs fs w3 where cl: "classify sys g w2 = ((dirs, fs), w3)"
    by (cases "classify sys g w2") auto
  obtain r4 w4 where f: "do_files sys g (sort_ls fs) w3 = (r4, w4)"
    by (cases "do_files sys g (sort_ls fs) w3")
  have r4: "r4 = Inr ()"
    using do_files_normal [OF a r lt, of g "sort_ls fs" w3] f by simp
  obtain r5 w5 where d: "do_dirs sys g (sort_ls dirs) w4 = (r5, w5)"
    by (cases "do_dirs sys g (sort_ls dirs) w4")
  have r5: "r5 = Inr ()"
  proof -
    obtain ok w6 where a3: "alloc sys w4 = (ok, w6)"
      by (cases "alloc sys w4")
    have ok3: "ok"
      using alloc_ok [OF a, of w4] a3 by simp
    obtain home where "os_getcwd sys (w_cwd w6) False = Inr home"
      using gc by blast
    then have "do_dirs sys g (sort_ls dirs) w4 =
        do_dirs_loop sys g (int (length (sort_ls dirs))) (Some home)
          (sort_ls dirs) (log_call Getcwd w6)"
      using a3 ok3 by (simp add: do_dirs_def sys_getcwd_def answer_def log_call_def)
    then show ?thesis
      using do_dirs_loop_normal [OF a r lt c] d by (metis fst_conv)
  qed
  show ?thesis
    using pa a1 a2 ok cl f r4 d r5 by (simp add: main_def Let_def)
qed

text \<open>
  Claim C6 on concrete runs. Listing a directory of 33 entries makes \<^verbatim>\<open>listdir\<close> double
  its array once; when that \<^verbatim>\<open>realloc\<close> fails, the unchecked null pointer is written
  through and the run ends in a fault, not with exit status 1. When the \<^verbatim>\<open>malloc\<close> of the
  buffer for the working directory fails and \<^verbatim>\<open>getcwd\<close> still succeeds, a run with plain
  files only ends with status 0. The checked \<^verbatim>\<open>malloc\<close> of \<^verbatim>\<open>listdir\<close> ends the run with
  status 1.
\<close>

theorem unchecked_allocation_failure:
  "length big_names = 33 \<and>
   \<not> os_alloc os_realloc_fails 4 \<and>
   main os_realloc_fails [] [''big''] w_start =
     (Fault, w_start\<lparr>w_errno := 12, w_allocs := 5,
        w_trace := [Stat ''big'', Getcwd, Opendir ''big'']\<rparr>) \<and>
   \<not> os_alloc os_cwd_malloc_fails 2 \<and>
   fst (main os_cwd_malloc_fails [] [''notes.txt''] w_start) = Exit 0 \<and>
   \<not> os_alloc os_malloc_fails 3 \<and>
   fst (main os_malloc_fails [] [''big''] w_start) = Exit 1"
  by (simp add: sys_defs mode_defs prog_defs example_defs fmt_eval sort_eval
      os_realloc_fails_def os_cwd_malloc_fails_def os_malloc_fails_def)

theorem unchecked_allocation_failure_witness:
  "fst (main os_realloc_fails [] [''big''] w_start) \<noteq> Exit 1 \<and>
   fst (main os_cwd_malloc_fails [] [''notes.txt''] w_start) \<noteq> Exit 1"
  using unchecked_allocation_failure by simp

end
